theory Spec2Isabelle
  imports Main "HOL-Library.Sublist"
begin

section \<open>Python strings\<close>

text \<open>
  A Python \<^verbatim>\<open>str\<close> is modelled as a \<^typ>\<open>string\<close>: the list of the code units of its
  UTF-8 encoding. A \<^verbatim>\<open>str\<close> may hold a lone surrogate (U+D800 to U+DFFF), which UTF-8
  refuses to encode; it stands as the three bytes that the encoding scheme gives its code point,
  \<^verbatim>\<open>ED\<close>, then \<^verbatim>\<open>A0\<close> to \<^verbatim>\<open>BF\<close>, then \<^verbatim>\<open>80\<close> to \<^verbatim>\<open>BF\<close>. Searching for, splitting at
  and replacing text is the same on the characters and on their code units, no encoding of a
  character being a part of the encoding of another.
\<close>

definition startswith :: "string \<Rightarrow> string \<Rightarrow> bool" where
  "startswith s p = prefix p s"

definition endswith :: "string \<Rightarrow> string \<Rightarrow> bool" where
  "endswith s p = suffix p s"

text \<open>
  \<^verbatim>\<open>s.replace(old, new)\<close>: the occurrences of \<open>old\<close> are found from the left, each search
  starting behind the occurrence found before. An empty \<open>old\<close> matches before every character
  and at the end.
\<close>

function py_replace :: "string \<Rightarrow> string \<Rightarrow> string \<Rightarrow> string" where
  "py_replace s old new =
     (if old = [] then new @ concat (map (\<lambda>c. c # new) s)
      else if s = [] then []
      else if prefix old s then new @ py_replace (drop (length old) s) old new
      else hd s # py_replace (tl s) old new)"
  by pat_completeness auto
termination
  by (relation "measure (\<lambda>(s, old, new). length s)") auto

declare py_replace.simps [simp del]

definition is_ascii :: "char \<Rightarrow> bool" where
  "is_ascii c = ((of_char c :: nat) < 0x80)"

text \<open>
  The characters that \<^verbatim>\<open>str.isspace\<close> knows and \<^verbatim>\<open>str.strip()\<close> removes, each as its code
  units: U+0009 to U+000D, U+001C to U+0020, U+0085, U+00A0, U+1680, U+2000 to U+200A, U+2028,
  U+2029, U+202F, U+205F and U+3000.
\<close>

definition whitespace :: "string list" where
  "whitespace =
     [[CHR 0x09], [CHR 0x0A], [CHR 0x0B], [CHR 0x0C], [CHR 0x0D],
      [CHR 0x1C], [CHR 0x1D], [CHR 0x1E], [CHR 0x1F], [CHR 0x20],
      [CHR 0xC2, CHR 0x85], [CHR 0xC2, CHR 0xA0], [CHR 0xE1, CHR 0x9A, CHR 0x80],
      [CHR 0xE2, CHR 0x80, CHR 0x80], [CHR 0xE2, CHR 0x80, CHR 0x81], [CHR 0xE2, CHR 0x80, CHR 0x82],
      [CHR 0xE2, CHR 0x80, CHR 0x83], [CHR 0xE2, CHR 0x80, CHR 0x84], [CHR 0xE2, CHR 0x80, CHR 0x85],
      [CHR 0xE2, CHR 0x80, CHR 0x86], [CHR 0xE2, CHR 0x80, CHR 0x87], [CHR 0xE2, CHR 0x80, CHR 0x88],
      [CHR 0xE2, CHR 0x80, CHR 0x89], [CHR 0xE2, CHR 0x80, CHR 0x8A], [CHR 0xE2, CHR 0x80, CHR 0xA8],
      [CHR 0xE2, CHR 0x80, CHR 0xA9], [CHR 0xE2, CHR 0x80, CHR 0xAF], [CHR 0xE2, CHR 0x81, CHR 0x9F],
      [CHR 0xE3, CHR 0x80, CHR 0x80]]"

text \<open>The characters of \<open>chars\<close> are taken from the front of \<open>s\<close> as long as there is one.\<close>

function strip_front :: "string list \<Rightarrow> string \<Rightarrow> string" where
  "strip_front chars s =
     (case find (\<lambda>w. w \<noteq> [] \<and> prefix w s) chars of
        Some w \<Rightarrow> strip_front chars (drop (length w) s)
      | None \<Rightarrow> s)"
  by pat_completeness auto
termination
proof (relation "measure (\<lambda>(chars, s). length s)")
  show "wf (measure (\<lambda>(chars, s). length s))" by simp
next
  fix chars :: "string list" and s w :: string
  assume "find (\<lambda>w. w \<noteq> [] \<and> prefix w s) chars = Some w"
  then have "w \<noteq> []" and "prefix w s"
    by (auto simp: find_Some_iff)
  then have "s \<noteq> []" by auto
  with \<open>w \<noteq> []\<close> show "((chars, drop (length w) s), chars, s) \<in> measure (\<lambda>(chars, s). length s)"
    by simp
qed

declare strip_front.simps [simp del]

text \<open>\<^verbatim>\<open>s.strip()\<close>: the whitespace is taken from the front, then from the end.\<close>

definition py_strip :: "string \<Rightarrow> string" where
  "py_strip s = rev (strip_front (map rev whitespace) (rev (strip_front whitespace s)))"

text \<open>
  \<^verbatim>\<open>str.upper\<close> and \<^verbatim>\<open>str.lower\<close> map the ASCII letters of a string of ASCII characters. What
  they give for a string with a character outside ASCII is in the tables of the Unicode
  character database (the long s becomes \<^verbatim>\<open>S\<close>, the Kelvin sign \<^verbatim>\<open>k\<close>), which are not
  modelled and stand as a parameter, asked only for such a string.
\<close>

record unicodedata =
  to_upper :: "string \<Rightarrow> string"
  to_lower :: "string \<Rightarrow> string"

definition upper_char :: "char \<Rightarrow> char" where
  "upper_char c =
     (case map_of (zip ''abcdefghijklmnopqrstuvwxyz'' ''ABCDEFGHIJKLMNOPQRSTUVWXYZ'') c of
        Some u \<Rightarrow> u | None \<Rightarrow> c)"

definition lower_char :: "char \<Rightarrow> char" where
  "lower_char c =
     (case map_of (zip ''ABCDEFGHIJKLMNOPQRSTUVWXYZ'' ''abcdefghijklmnopqrstuvwxyz'') c of
        Some l \<Rightarrow> l | None \<Rightarrow> c)"

definition py_upper :: "unicodedata \<Rightarrow> string \<Rightarrow> string" where
  "py_upper ucd s = (if list_all is_ascii s then map upper_char s else to_upper ucd s)"

definition py_lower :: "unicodedata \<Rightarrow> string \<Rightarrow> string" where
  "py_lower ucd s = (if list_all is_ascii s then map lower_char s else to_lower ucd s)"

text \<open>Tables that leave every string as it is, for the evaluation of the functions on text
  of ASCII characters, where no table is asked.\<close>

definition no_tables :: unicodedata where
  "no_tables = \<lparr>to_upper = (\<lambda>s. s), to_lower = (\<lambda>s. s)\<rparr>"

text \<open>\<^verbatim>\<open>s.split(sep, 1)\<close> and \<^verbatim>\<open>s.partition(sep)\<close> for a separator \<open>sep\<close> of one character that
  occurs in \<open>s\<close>: the text before the first \<open>sep\<close> and the text behind it. Without a \<open>sep\<close>
  in \<open>s\<close> the first part is \<open>s\<close> and the second is empty, as \<^verbatim>\<open>partition\<close> has it.\<close>

definition split_first :: "char \<Rightarrow> string \<Rightarrow> string \<times> string" where
  "split_first sep s = (takeWhile (\<lambda>c. c \<noteq> sep) s, drop 1 (dropWhile (\<lambda>c. c \<noteq> sep) s))"

text \<open>\<^verbatim>\<open>s.split(sep)\<close> for a separator of one character: never an empty list.\<close>

fun py_split :: "char \<Rightarrow> string \<Rightarrow> string list" where
  "py_split sep [] = [[]]"
| "py_split sep (c # cs) =
     (if c = sep then [] # py_split sep cs
      else (case py_split sep cs of
              [] \<Rightarrow> [[c]]
            | w # ws \<Rightarrow> (c # w) # ws))"

text \<open>\<^verbatim>\<open>sep.join(parts)\<close>.\<close>

fun py_join :: "string \<Rightarrow> string list \<Rightarrow> string" where
  "py_join sep [] = []"
| "py_join sep [p] = p"
| "py_join sep (p # q # ps) = p @ sep @ py_join sep (q # ps)"

text \<open>The truth value of an optional string: \<^verbatim>\<open>None\<close> and the empty string are false.\<close>

fun truthy :: "string option \<Rightarrow> bool" where
  "truthy None = False"
| "truthy (Some s) = (s \<noteq> [])"

section \<open>shlex of the standard library\<close>

text \<open>
  \<^verbatim>\<open>shlex.split(s)\<close> runs the lexer in POSIX mode with \<^verbatim>\<open>whitespace_split\<close> set and no
  comment characters. The lexer reads one character at a time; its state is \<^verbatim>\<open>' '\<close>
  (between tokens), \<^verbatim>\<open>'a'\<close> (in a word), a quote character (inside quotes) or the escape
  character (behind a backslash). \<^verbatim>\<open>read_token\<close> returns at a \<^verbatim>\<open>break\<close> with the token
  collected so far and starts the next call with an empty token, \<^verbatim>\<open>quoted = False\<close> and
  \<^verbatim>\<open>escapedstate = ' '\<close>, in the state it was left in. The function below is the loop of
  \<^verbatim>\<open>read_token\<close> and the iteration over its results in one recursion over the input: a
  \<^verbatim>\<open>break\<close> puts the token in front of the tokens of the rest. A \<^verbatim>\<open>break\<close> is taken
  only with a token that is not empty or was quoted, except at the end of the input, where an
  empty token that was not quoted ends the iteration without a token.
\<close>

datatype lexstate = SP | WD | QT char | ES

datatype error =
    No_closing_quotation
  | No_escaped_character
  | Empty_cURL_command
  | No_URL_found
  | Invalid_IPv6_URL
  | Invalid_netloc
  | UnicodeEncodeError

definition shlex_whitespace :: "char \<Rightarrow> bool" where
  "shlex_whitespace c = (c \<in> set [CHR '' '', CHR 0x09, CHR 0x0D, CHR 0x0A])"

definition shlex_quotes :: "char \<Rightarrow> bool" where
  "shlex_quotes c = (c = CHR 0x27 \<or> c = CHR 0x22)"

definition emit :: "string \<Rightarrow> error + string list \<Rightarrow> error + string list" where
  "emit tok r = (case r of Inl e \<Rightarrow> Inl e | Inr ts \<Rightarrow> Inr (tok # ts))"

fun read_tokens :: "lexstate \<Rightarrow> lexstate \<Rightarrow> string \<Rightarrow> bool \<Rightarrow> string \<Rightarrow> error + string list" where
  "read_tokens state escapedstate token quoted [] =
     (case state of
        SP \<Rightarrow> Inr (if token \<noteq> [] \<or> quoted then [token] else [])
      | WD \<Rightarrow> Inr (if token \<noteq> [] \<or> quoted then [token] else [])
      | QT q \<Rightarrow> Inl No_closing_quotation
      | ES \<Rightarrow> Inl No_escaped_character)"
| "read_tokens state escapedstate token quoted (nextchar # rest) =
     (case state of
        SP \<Rightarrow>
          if shlex_whitespace nextchar then
            (if token \<noteq> [] \<or> quoted then emit token (read_tokens SP SP [] False rest)
             else read_tokens SP escapedstate token quoted rest)
          else if nextchar = CHR 0x5C then read_tokens ES WD token quoted rest
          else if shlex_quotes nextchar then read_tokens (QT nextchar) escapedstate token quoted rest
          else read_tokens WD escapedstate [nextchar] quoted rest
      | QT q \<Rightarrow>
          if nextchar = q then read_tokens WD escapedstate token True rest
          else if nextchar = CHR 0x5C \<and> q = CHR 0x22 then read_tokens ES (QT q) token True rest
          else read_tokens (QT q) escapedstate (token @ [nextchar]) True rest
      | ES \<Rightarrow>
          (let token' = (case escapedstate of
                           QT q \<Rightarrow> if nextchar \<noteq> CHR 0x5C \<and> nextchar \<noteq> q
                                   then token @ [CHR 0x5C] else token
                         | _ \<Rightarrow> token)
           in read_tokens escapedstate escapedstate (token' @ [nextchar]) quoted rest)
      | WD \<Rightarrow>
          if shlex_whitespace nextchar then
            (if token \<noteq> [] \<or> quoted then emit token (read_tokens SP SP [] False rest)
             else read_tokens SP escapedstate token quoted rest)
          else if shlex_quotes nextchar then read_tokens (QT nextchar) escapedstate token quoted rest
          else if nextchar = CHR 0x5C then read_tokens ES WD token quoted rest
          else read_tokens WD escapedstate (token @ [nextchar]) quoted rest)"

definition shlex_split :: "string \<Rightarrow> error + string list" where
  "shlex_split s = read_tokens SP SP [] False s"

text \<open>
  \<^verbatim>\<open>shlex.quote(s)\<close>: the empty string is \<^verbatim>\<open>''\<close>; a string of the characters
  \<^verbatim>\<open>[A-Za-z0-9_@%+=:,./-]\<close> stands for itself; any other is put in single quotes, a single
  quote inside it written \<^verbatim>\<open>'"'"'\<close>.
\<close>

definition shlex_safe :: "char \<Rightarrow> bool" where
  "shlex_safe c = (c \<in> set (''abcdefghijklmnopqrstuvwxyz'' @ ''ABCDEFGHIJKLMNOPQRSTUVWXYZ''
                              @ ''0123456789_'' @ ''@%+=:,./-''))"

definition shlex_quote :: "string \<Rightarrow> string" where
  "shlex_quote s =
     (if s = [] then [CHR 0x27, CHR 0x27]
      else if list_all shlex_safe s then s
      else [CHR 0x27] @ py_replace s [CHR 0x27] [CHR 0x27, CHR 0x22, CHR 0x27, CHR 0x22, CHR 0x27]
           @ [CHR 0x27])"

section \<open>urllib.parse of the standard library\<close>

text \<open>
  The functions are those of CPython 3.11. Two checks of \<^verbatim>\<open>urlsplit\<close> on the network
  location are not modelled and stand as the parameter \<open>netloc_ok\<close>: the validation of a host
  in brackets by \<^verbatim>\<open>ipaddress\<close>, and the NFKC normalisation check of a network location with
  characters outside ASCII. Both raise \<^verbatim>\<open>ValueError\<close> when they fail; interpreters before 3.11.4
  have no check of the first kind. The parameter is asked only for a network location with a
  pair of brackets or with a character outside ASCII.
\<close>

record ParseResult =
  scheme :: string
  netloc :: string
  path :: string
  params :: string
  query :: string
  fragment :: string

definition scheme_chars :: string where
  "scheme_chars = ''abcdefghijklmnopqrstuvwxyz'' @ ''ABCDEFGHIJKLMNOPQRSTUVWXYZ''
                  @ ''0123456789'' @ ''+-.''"

definition ascii_alpha :: "char \<Rightarrow> bool" where
  "ascii_alpha c = (c \<in> set (''abcdefghijklmnopqrstuvwxyz'' @ ''ABCDEFGHIJKLMNOPQRSTUVWXYZ''))"

definition uses_params :: "string list" where
  "uses_params = [[], ''ftp'', ''hdl'', ''prospero'', ''http'', ''imap'',
                  ''https'', ''shttp'', ''rtsp'', ''rtsps'', ''rtspu'', ''sip'',
                  ''sips'', ''mms'', ''sftp'', ''tel'']"

definition uses_netloc :: "string list" where
  "uses_netloc = [[], ''ftp'', ''http'', ''gopher'', ''nntp'', ''telnet'',
                  ''imap'', ''wais'', ''file'', ''mms'', ''https'', ''shttp'',
                  ''snews'', ''prospero'', ''rtsp'', ''rtsps'', ''rtspu'', ''rsync'',
                  ''svn'', ''svn+ssh'', ''sftp'', ''nfs'', ''git'', ''git+ssh'',
                  ''ws'', ''wss'']"

text \<open>
  \<^verbatim>\<open>urlsplit\<close>: leading characters up to the space are stripped and tabs and newlines
  removed; a scheme is split off at the first colon when the text before it starts with an ASCII
  letter and has scheme characters only; after \<^verbatim>\<open>//\<close> the network location runs to the first
  of \<^verbatim>\<open>/ ? #\<close>; brackets in it must come in pairs; then the fragment and the query are split
  off. The result has no \<open>params\<close> yet. The scheme has ASCII characters only, of which
  \<^verbatim>\<open>lower\<close> maps the letters.
\<close>

definition urlsplit :: "(string \<Rightarrow> bool) \<Rightarrow> string \<Rightarrow> error + ParseResult" where
  "urlsplit netloc_ok url0 =
     (let url1 = dropWhile (\<lambda>c. (of_char c :: nat) \<le> 0x20) url0;
          url2 = filter (\<lambda>c. c \<notin> set [CHR 0x09, CHR 0x0D, CHR 0x0A]) url1;
          front = takeWhile (\<lambda>c. c \<noteq> CHR '':'') url2;
          has_scheme = (CHR '':'' \<in> set url2 \<and> front \<noteq> [] \<and> ascii_alpha (hd front)
                        \<and> list_all (\<lambda>c. c \<in> set scheme_chars) front);
          scheme' = (if has_scheme then map lower_char front else []);
          url3 = (if has_scheme then drop (Suc (length front)) url2 else url2);
          has_netloc = (take 2 url3 = ''//'');
          delim = (\<lambda>c. c \<in> set ''/?#'');
          netloc' = (if has_netloc then takeWhile (\<lambda>c. \<not> delim c) (drop 2 url3) else []);
          url4 = (if has_netloc then dropWhile (\<lambda>c. \<not> delim c) (drop 2 url3) else url3);
          (url5, fragment') = (if CHR ''#'' \<in> set url4 then split_first (CHR ''#'') url4 else (url4, []));
          (url6, query') = (if CHR ''?'' \<in> set url5 then split_first (CHR ''?'') url5 else (url5, []))
      in if has_netloc \<and> ((CHR ''['' \<in> set netloc' \<and> CHR '']'' \<notin> set netloc')
                           \<or> (CHR '']'' \<in> set netloc' \<and> CHR ''['' \<notin> set netloc'))
         then Inl Invalid_IPv6_URL
         else if ((CHR ''['' \<in> set netloc' \<and> CHR '']'' \<in> set netloc') \<or> \<not> list_all is_ascii netloc')
                 \<and> \<not> netloc_ok netloc'
         then Inl Invalid_netloc
         else Inr \<lparr>scheme = scheme', netloc = netloc', path = url6, params = [],
                   query = query', fragment = fragment'\<rparr>)"

text \<open>\<^verbatim>\<open>_splitparams\<close>: the parameters start at the first semicolon of the last path
  segment.\<close>

definition splitparams :: "string \<Rightarrow> string \<times> string" where
  "splitparams url' =
     (if CHR ''/'' \<in> set url' then
        (let seg = rev (takeWhile (\<lambda>c. c \<noteq> CHR ''/'') (rev url'));
             front = take (length url' - length seg) url'
         in if CHR '';'' \<in> set seg
            then (front @ fst (split_first (CHR '';'') seg), snd (split_first (CHR '';'') seg))
            else (url', []))
      else split_first (CHR '';'') url')"

definition urlparse :: "(string \<Rightarrow> bool) \<Rightarrow> string \<Rightarrow> error + ParseResult" where
  "urlparse netloc_ok url' =
     (case urlsplit netloc_ok url' of
        Inl e \<Rightarrow> Inl e
      | Inr r \<Rightarrow>
          if scheme r \<in> set uses_params \<and> CHR '';'' \<in> set (path r)
          then Inr (r\<lparr>path := fst (splitparams (path r)), params := snd (splitparams (path r))\<rparr>)
          else Inr r)"

definition urlunsplit :: "string \<Rightarrow> string \<Rightarrow> string \<Rightarrow> string \<Rightarrow> string \<Rightarrow> string" where
  "urlunsplit scheme' netloc' url0 query' fragment' =
     (let url1 = (if netloc' \<noteq> [] \<or> (scheme' \<noteq> [] \<and> scheme' \<in> set uses_netloc)
                     \<or> take 2 url0 = ''//''
                  then ''//'' @ netloc' @ (if url0 \<noteq> [] \<and> take 1 url0 \<noteq> ''/'' then ''/'' @ url0 else url0)
                  else url0);
          url2 = (if scheme' \<noteq> [] then scheme' @ '':'' @ url1 else url1);
          url3 = (if query' \<noteq> [] then url2 @ ''?'' @ query' else url2)
      in if fragment' \<noteq> [] then url3 @ ''#'' @ fragment' else url3)"

definition urlunparse :: "ParseResult \<Rightarrow> string" where
  "urlunparse r =
     urlunsplit (scheme r) (netloc r)
       (if params r \<noteq> [] then path r @ '';'' @ params r else path r) (query r) (fragment r)"

subsection \<open>Percent-encoding\<close>

definition hexdigits :: string where
  "hexdigits = ''0123456789ABCDEF''"

definition always_safe :: "char \<Rightarrow> bool" where
  "always_safe c = (c \<in> set (''ABCDEFGHIJKLMNOPQRSTUVWXYZ'' @ ''abcdefghijklmnopqrstuvwxyz''
                               @ ''0123456789'' @ ''_.-~''))"

text \<open>
  \<^verbatim>\<open>quote_plus(s)\<close> with no further safe characters encodes the string as UTF-8 with the
  error handler \<^verbatim>\<open>strict\<close>, which raises \<^verbatim>\<open>UnicodeEncodeError\<close> (a \<^verbatim>\<open>ValueError\<close>) for a
  string with a surrogate. Of the bytes, a space becomes \<^verbatim>\<open>+\<close>, a safe character stands for
  itself, and any other is written \<^verbatim>\<open>%XX\<close>.
\<close>

fun has_surrogate :: "string \<Rightarrow> bool" where
  "has_surrogate (a # b # s) =
     ((a = CHR 0xED \<and> 0xA0 \<le> (of_char b :: nat) \<and> (of_char b :: nat) \<le> 0xBF)
      \<or> has_surrogate (b # s))"
| "has_surrogate s = False"

definition quote_byte :: "char \<Rightarrow> string" where
  "quote_byte c =
     (if c = CHR '' '' then ''+''
      else if always_safe c then [c]
      else [CHR ''%'', hexdigits ! ((of_char c :: nat) div 16), hexdigits ! ((of_char c :: nat) mod 16)])"

definition quote_plus_bytes :: "string \<Rightarrow> string" where
  "quote_plus_bytes bs = concat (map quote_byte bs)"

definition quote_plus :: "string \<Rightarrow> error + string" where
  "quote_plus s = (if has_surrogate s then Inl UnicodeEncodeError else Inr (quote_plus_bytes s))"

definition hexval :: "char \<Rightarrow> nat option" where
  "hexval c = map_of (zip ''0123456789ABCDEFabcdef''
                [0, 1, 2, 3, 4, 5, 6, 7, 8, 9, 10, 11, 12, 13, 14, 15, 10, 11, 12, 13, 14, 15]) c"

text \<open>\<^verbatim>\<open>unquote_to_bytes\<close>: a percent sign followed by two hexadecimal digits is the byte they
  name; any other percent sign stays.\<close>

fun unquote_to_bytes :: "string \<Rightarrow> string" where
  "unquote_to_bytes (p # a # b # cs) =
     (if p = CHR ''%'' then
        (case (hexval a, hexval b) of
           (Some h, Some l) \<Rightarrow> char_of (16 * h + l) # unquote_to_bytes cs
         | _ \<Rightarrow> p # unquote_to_bytes (a # b # cs))
      else p # unquote_to_bytes (a # b # cs))"
| "unquote_to_bytes cs = cs"

text \<open>
  \<^verbatim>\<open>bytes.decode('utf-8', 'replace')\<close>, as the UTF-8 encoding of its result: a well-formed
  sequence stays, and every maximal ill-formed part becomes U+FFFD (the bytes EF BF BD).
\<close>

definition cont_byte :: "char \<Rightarrow> bool" where
  "cont_byte c = (0x80 \<le> (of_char c :: nat) \<and> (of_char c :: nat) \<le> 0xBF)"

definition second_ok :: "char \<Rightarrow> char \<Rightarrow> bool" where
  "second_ok lead c =
     (let l = (of_char lead :: nat); n = (of_char c :: nat) in
      if l = 0xE0 then 0xA0 \<le> n \<and> n \<le> 0xBF
      else if l = 0xED then 0x80 \<le> n \<and> n \<le> 0x9F
      else if l = 0xF0 then 0x90 \<le> n \<and> n \<le> 0xBF
      else if l = 0xF4 then 0x80 \<le> n \<and> n \<le> 0x8F
      else 0x80 \<le> n \<and> n \<le> 0xBF)"

definition replacement :: string where
  "replacement = [CHR 0xEF, CHR 0xBF, CHR 0xBD]"

fun decode_replace :: "string \<Rightarrow> string" where
  "decode_replace [] = []"
| "decode_replace (c # cs) =
     (let n = (of_char c :: nat) in
      if n < 0x80 then c # decode_replace cs
      else if 0xC2 \<le> n \<and> n \<le> 0xDF then
        (case cs of
           c2 # r2 \<Rightarrow> if cont_byte c2 then c # c2 # decode_replace r2
                      else replacement @ decode_replace cs
         | [] \<Rightarrow> replacement)
      else if 0xE0 \<le> n \<and> n \<le> 0xEF then
        (case cs of
           c2 # r2 \<Rightarrow>
             if second_ok c c2 then
               (case r2 of
                  c3 # r3 \<Rightarrow> if cont_byte c3 then c # c2 # c3 # decode_replace r3
                             else replacement @ decode_replace r2
                | [] \<Rightarrow> replacement)
             else replacement @ decode_replace cs
         | [] \<Rightarrow> replacement)
      else if 0xF0 \<le> n \<and> n \<le> 0xF4 then
        (case cs of
           c2 # r2 \<Rightarrow>
             if second_ok c c2 then
               (case r2 of
                  c3 # r3 \<Rightarrow>
                    if cont_byte c3 then
                      (case r3 of
                         c4 # r4 \<Rightarrow> if cont_byte c4 then c # c2 # c3 # c4 # decode_replace r4
                                    else replacement @ decode_replace r3
                       | [] \<Rightarrow> replacement)
                    else replacement @ decode_replace r2
                | [] \<Rightarrow> replacement)
             else replacement @ decode_replace cs
         | [] \<Rightarrow> replacement)
      else replacement @ decode_replace cs)"

text \<open>\<^verbatim>\<open>unquote\<close>: the runs of ASCII characters are decoded, each on its own; characters
  outside ASCII stay.\<close>

function unquote :: "string \<Rightarrow> string" where
  "unquote s =
     (if s = [] then []
      else if is_ascii (hd s) then
        decode_replace (unquote_to_bytes (takeWhile is_ascii s)) @ unquote (dropWhile is_ascii s)
      else takeWhile (\<lambda>c. \<not> is_ascii c) s @ unquote (dropWhile (\<lambda>c. \<not> is_ascii c) s))"
  by pat_completeness auto
termination
proof (relation "measure length")
  show "wf (measure length)" by simp
next
  fix s :: string
  assume "s \<noteq> []" and "is_ascii (hd s)"
  then have "length (dropWhile is_ascii s) < length s"
    by (cases s) (auto intro: le_imp_less_Suc length_dropWhile_le)
  then show "(dropWhile is_ascii s, s) \<in> measure length" by simp
next
  fix s :: string
  assume "s \<noteq> []" and "\<not> is_ascii (hd s)"
  then have "length (dropWhile (\<lambda>c. \<not> is_ascii c) s) < length s"
    by (cases s) (auto intro: le_imp_less_Suc length_dropWhile_le)
  then show "(dropWhile (\<lambda>c. \<not> is_ascii c) s, s) \<in> measure length" by simp
qed

declare unquote.simps [simp del]

definition unquote_plus :: "string \<Rightarrow> string" where
  "unquote_plus s = unquote (py_replace s ''+'' '' '')"

subsection \<open>Query strings\<close>

text \<open>A dictionary is the list of its items in insertion order, the keys distinct. Assigning
  to a key that is present keeps its place.\<close>

fun dict_set :: "'k \<Rightarrow> 'v \<Rightarrow> ('k \<times> 'v) list \<Rightarrow> ('k \<times> 'v) list" where
  "dict_set k v [] = [(k, v)]"
| "dict_set k v ((k', v') # d) = (if k' = k then (k, v) # d else (k', v') # dict_set k v d)"

text \<open>\<^verbatim>\<open>parse_qsl(qs, keep_blank_values=True)\<close>: the fields between \<^verbatim>\<open>&\<close>, the empty ones
  left out, each split at its first \<^verbatim>\<open>=\<close>.\<close>

definition parse_qsl :: "string \<Rightarrow> (string \<times> string) list" where
  "parse_qsl qs =
     (if qs = [] then []
      else map (\<lambda>name_value. (unquote_plus (fst (split_first (CHR ''='') name_value)),
                               unquote_plus (snd (split_first (CHR ''='') name_value))))
             (filter (\<lambda>name_value. name_value \<noteq> []) (py_split (CHR ''&'') qs)))"

text \<open>\<^verbatim>\<open>parse_qs(qs, keep_blank_values=True)\<close>: the values of a name are collected in a list,
  under the place of its first field.\<close>

fun parse_qs_pairs :: "(string \<times> string list) list \<Rightarrow> (string \<times> string) list
    \<Rightarrow> (string \<times> string list) list" where
  "parse_qs_pairs parsed_result [] = parsed_result"
| "parse_qs_pairs parsed_result ((name, v) # pairs) =
     parse_qs_pairs
       (case map_of parsed_result name of
          Some vs \<Rightarrow> dict_set name (vs @ [v]) parsed_result
        | None \<Rightarrow> dict_set name [v] parsed_result)
       pairs"

definition parse_qs :: "string \<Rightarrow> (string \<times> string list) list" where
  "parse_qs qs = parse_qs_pairs [] (parse_qsl qs)"

text \<open>\<^verbatim>\<open>urlencode(query, doseq=True)\<close> of a dictionary of lists: one entry \<^verbatim>\<open>k=v\<close> for
  every value in the list of a key, the key and the value quoted. The error of
  \<^verbatim>\<open>quote_plus\<close> leaves the function.\<close>

fun urlencode_values :: "string \<Rightarrow> string list \<Rightarrow> error + string list" where
  "urlencode_values k [] = Inr []"
| "urlencode_values k (elt # v) =
     (case quote_plus elt of
        Inl e \<Rightarrow> Inl e
      | Inr elt' \<Rightarrow>
          (case urlencode_values k v of
             Inl e \<Rightarrow> Inl e
           | Inr l \<Rightarrow> Inr ((k @ ''='' @ elt') # l)))"

fun urlencode_items :: "(string \<times> string list) list \<Rightarrow> error + string list" where
  "urlencode_items [] = Inr []"
| "urlencode_items ((k, v) # query') =
     (case quote_plus k of
        Inl e \<Rightarrow> Inl e
      | Inr k' \<Rightarrow>
          (case urlencode_values k' v of
             Inl e \<Rightarrow> Inl e
           | Inr l \<Rightarrow>
               (case urlencode_items query' of
                  Inl e \<Rightarrow> Inl e
                | Inr l' \<Rightarrow> Inr (l @ l'))))"

definition urlencode :: "(string \<times> string list) list \<Rightarrow> error + string" where
  "urlencode d = (case urlencode_items d of Inl e \<Rightarrow> Inl e | Inr l \<Rightarrow> Inr (py_join ''&'' l))"

text \<open>For the proofs: the dictionaries that \<^verbatim>\<open>urlencode\<close> can encode, and the entries that
  it gives for them.\<close>

definition encodable :: "(string \<times> string list) list \<Rightarrow> bool" where
  "encodable d = list_all (\<lambda>(k, vs). \<not> has_surrogate k \<and> list_all (\<lambda>elt. \<not> has_surrogate elt) vs) d"

definition urlencode_entries :: "(string \<times> string list) list \<Rightarrow> string list" where
  "urlencode_entries d =
     concat (map (\<lambda>(k, vs). map (\<lambda>elt. quote_plus_bytes k @ ''='' @ quote_plus_bytes elt) vs) d)"

section \<open>Data models (models.py)\<close>

datatype HttpMethod = GET | POST | PUT | PATCH | DELETE | HEAD | OPTIONS

datatype BodyType = BODY_NONE | RAW | FORM_URLENCODED | MULTIPART

datatype RawBodyType = TEXT | JSON | XML

datatype AuthType = AUTH_NONE | BASIC | BEARER

fun HttpMethod_value :: "HttpMethod \<Rightarrow> string" where
  "HttpMethod_value GET = ''GET''"
| "HttpMethod_value POST = ''POST''"
| "HttpMethod_value PUT = ''PUT''"
| "HttpMethod_value PATCH = ''PATCH''"
| "HttpMethod_value DELETE = ''DELETE''"
| "HttpMethod_value HEAD = ''HEAD''"
| "HttpMethod_value OPTIONS = ''OPTIONS''"

text \<open>\<^verbatim>\<open>HttpMethod(s)\<close>: the member with the value \<open>s\<close>; \<^verbatim>\<open>ValueError\<close> (here \<open>None\<close>) when
  there is none.\<close>

definition HttpMethod_of :: "string \<Rightarrow> HttpMethod option" where
  "HttpMethod_of s =
     map_of [(''GET'', GET), (''POST'', POST), (''PUT'', PUT), (''PATCH'', PATCH),
             (''DELETE'', DELETE), (''HEAD'', HEAD), (''OPTIONS'', OPTIONS)] s"

record KeyValuePair =
  enabled :: bool
  key :: string
  "value" :: string

text \<open>The fields of \<^verbatim>\<open>MultipartItem\<close> are \<^verbatim>\<open>enabled\<close>, \<^verbatim>\<open>key\<close>, \<^verbatim>\<open>type\<close> and
  \<^verbatim>\<open>value\<close>; they carry a prefix here, the names being those of \<^verbatim>\<open>KeyValuePair\<close>.\<close>

record MultipartItem =
  m_enabled :: bool
  m_key :: string
  m_type :: string
  m_value :: string

record AuthConfig =
  auth_type :: AuthType
  username :: string
  password :: string
  bearer_token :: string

record RequestModel =
  "method" :: HttpMethod
  url :: string
  query_params :: "KeyValuePair list"
  headers :: "KeyValuePair list"
  body_type :: BodyType
  raw_body_type :: RawBodyType
  raw_body :: string
  form_data :: "KeyValuePair list"
  multipart_data :: "MultipartItem list"
  auth :: AuthConfig
  environment :: string

definition AuthConfig_default :: AuthConfig where
  "AuthConfig_default = \<lparr>auth_type = AUTH_NONE, username = [], password = [], bearer_token = []\<rparr>"

definition RequestModel_default :: RequestModel where
  "RequestModel_default =
     \<lparr>method = GET, url = [], query_params = [], headers = [], body_type = BODY_NONE,
      raw_body_type = TEXT, raw_body = [], form_data = [], multipart_data = [],
      auth = AuthConfig_default, environment = ''Default''\<rparr>"

section \<open>Importing a cURL command (curl\_import.py)\<close>

text \<open>Lines 19 to 23: the command is stripped and a leading \<^verbatim>\<open>curl\<close> with the space or newline
  behind it removed.\<close>

definition strip_curl :: "string \<Rightarrow> string" where
  "strip_curl curl_string =
     (let s = py_strip curl_string in
      if startswith s ''curl '' then py_strip (drop 5 s)
      else if startswith s (''curl'' @ [CHR 0x0A]) then py_strip (drop 5 s)
      else s)"

text \<open>Lines 31 to 49: the tokenizer that takes over when \<^verbatim>\<open>shlex.split\<close> raises.\<close>

fun fallback_tokens :: "string list \<Rightarrow> string \<Rightarrow> bool \<Rightarrow> char option \<Rightarrow> string \<Rightarrow> string list" where
  "fallback_tokens tokens current in_quotes quote_char [] =
     (if current \<noteq> [] then tokens @ [current] else tokens)"
| "fallback_tokens tokens current in_quotes quote_char (c # rest) =
     (if (c = CHR 0x22 \<or> c = CHR 0x27) \<and> \<not> in_quotes
        then fallback_tokens tokens current True (Some c) rest
      else if Some c = quote_char \<and> in_quotes
        then fallback_tokens tokens current False None rest
      else if c = CHR '' '' \<and> \<not> in_quotes
        then (if current \<noteq> [] then fallback_tokens (tokens @ [current]) [] in_quotes quote_char rest
              else fallback_tokens tokens current in_quotes quote_char rest)
      else fallback_tokens tokens (current @ [c]) in_quotes quote_char rest)"

definition tokenize :: "string \<Rightarrow> string list" where
  "tokenize curl_string =
     (case shlex_split curl_string of
        Inr tokens \<Rightarrow> tokens
      | Inl e \<Rightarrow> fallback_tokens [] [] False None curl_string)"

text \<open>The local variables of the loop over the tokens (lines 55 to 64), with a prefix, their
  names being those of fields of the request.\<close>

record collected =
  c_url :: "string option"
  c_method :: string
  c_headers :: "(string \<times> string) list"
  c_data :: "string option"
  c_data_raw :: "string option"
  c_data_binary :: "string option"
  c_form_data :: "string list"
  c_auth_user :: "string option"
  c_auth_pass :: "string option"
  c_bearer_token :: "string option"

definition collected_init :: collected where
  "collected_init =
     \<lparr>c_url = None, c_method = ''GET'', c_headers = [], c_data = None, c_data_raw = None,
      c_data_binary = None, c_form_data = [], c_auth_user = None, c_auth_pass = None,
      c_bearer_token = None\<rparr>"

text \<open>Lines 76 to 85: the argument of \<^verbatim>\<open>-H\<close>. A value whose lower case starts with
  \<^verbatim>\<open>bearer\<close> and a space starts with seven ASCII characters (no character outside ASCII has
  one of these letters as its lower case), so \<^verbatim>\<open>value[7:]\<close> drops seven code units.\<close>

definition take_header :: "unicodedata \<Rightarrow> string \<Rightarrow> collected \<Rightarrow> collected" where
  "take_header ucd header_str c =
     (if CHR '':'' \<in> set header_str then
        (let k = py_strip (fst (split_first (CHR '':'') header_str));
             v = py_strip (snd (split_first (CHR '':'') header_str))
         in if py_lower ucd k = ''authorization'' \<and> startswith (py_lower ucd v) ''bearer ''
            then c\<lparr>c_bearer_token := Some (py_strip (drop 7 v))\<rparr>
            else c\<lparr>c_headers := c_headers c @ [(k, v)]\<rparr>)
      else c)"

text \<open>Lines 110 to 114: the argument of \<^verbatim>\<open>-u\<close>.\<close>

definition take_user :: "string \<Rightarrow> collected \<Rightarrow> collected" where
  "take_user auth_str c =
     (if CHR '':'' \<in> set auth_str
      then c\<lparr>c_auth_user := Some (fst (split_first (CHR '':'') auth_str)),
             c_auth_pass := Some (snd (split_first (CHR '':'') auth_str))\<rparr>
      else c\<lparr>c_auth_user := Some auth_str\<rparr>)"

text \<open>Lines 66 to 136: the loop over the tokens. The list is \<^verbatim>\<open>tokens[i:]\<close>; a flag that
  takes an argument and stands last is passed over.\<close>

fun scan_tokens :: "unicodedata \<Rightarrow> collected \<Rightarrow> string list \<Rightarrow> collected" where
  "scan_tokens ucd c [] = c"
| "scan_tokens ucd c (token # rest) =
     (if token = ''-X'' \<or> token = ''--request'' then
        (case rest of
           arg # rest' \<Rightarrow> scan_tokens ucd (c\<lparr>c_method := py_upper ucd arg\<rparr>) rest'
         | [] \<Rightarrow> scan_tokens ucd c rest)
      else if token = ''-H'' \<or> token = ''--header'' then
        (case rest of
           arg # rest' \<Rightarrow> scan_tokens ucd (take_header ucd arg c) rest'
         | [] \<Rightarrow> scan_tokens ucd c rest)
      else if token = ''-d'' \<or> token = ''--data'' then
        (case rest of
           arg # rest' \<Rightarrow> scan_tokens ucd (c\<lparr>c_data := Some arg\<rparr>) rest'
         | [] \<Rightarrow> scan_tokens ucd c rest)
      else if token = ''--data-raw'' then
        (case rest of
           arg # rest' \<Rightarrow> scan_tokens ucd (c\<lparr>c_data_raw := Some arg\<rparr>) rest'
         | [] \<Rightarrow> scan_tokens ucd c rest)
      else if token = ''--data-binary'' then
        (case rest of
           arg # rest' \<Rightarrow> scan_tokens ucd (c\<lparr>c_data_binary := Some arg\<rparr>) rest'
         | [] \<Rightarrow> scan_tokens ucd c rest)
      else if token = ''-F'' \<or> token = ''--form'' then
        (case rest of
           arg # rest' \<Rightarrow> scan_tokens ucd (c\<lparr>c_form_data := c_form_data c @ [arg]\<rparr>) rest'
         | [] \<Rightarrow> scan_tokens ucd c rest)
      else if token = ''-u'' \<or> token = ''--user'' then
        (case rest of
           arg # rest' \<Rightarrow> scan_tokens ucd (take_user arg c) rest'
         | [] \<Rightarrow> scan_tokens ucd c rest)
      else if startswith token ''--proxy'' then
        (case rest of
           arg # rest' \<Rightarrow> scan_tokens ucd c rest'
         | [] \<Rightarrow> scan_tokens ucd c rest)
      else if startswith token ''-'' \<or> startswith token ''--'' then scan_tokens ucd c rest
      else if \<not> truthy (c_url c) \<and> (startswith token ''http://'' \<or> startswith token ''https://'')
        then scan_tokens ucd (c\<lparr>c_url := Some token\<rparr>) rest
      else if \<not> truthy (c_url c) then scan_tokens ucd (c\<lparr>c_url := Some token\<rparr>) rest
      else scan_tokens ucd c rest)"

text \<open>The loop in two steps, for the proofs: the flags that take the next token as their
  argument, what such a flag does with it, and what a token does that takes none. The order
  of the cases is that of the \<^verbatim>\<open>elif\<close> chain.\<close>

definition takes_arg :: "string \<Rightarrow> bool" where
  "takes_arg token =
     (token \<in> set [''-X'', ''--request'', ''-H'', ''--header'', ''-d'', ''--data'', ''--data-raw'',
                    ''--data-binary'', ''-F'', ''--form'', ''-u'', ''--user'']
      \<or> startswith token ''--proxy'')"

definition with_arg :: "unicodedata \<Rightarrow> string \<Rightarrow> string \<Rightarrow> collected \<Rightarrow> collected" where
  "with_arg ucd token arg c =
     (if token = ''-X'' \<or> token = ''--request'' then c\<lparr>c_method := py_upper ucd arg\<rparr>
      else if token = ''-H'' \<or> token = ''--header'' then take_header ucd arg c
      else if token = ''-d'' \<or> token = ''--data'' then c\<lparr>c_data := Some arg\<rparr>
      else if token = ''--data-raw'' then c\<lparr>c_data_raw := Some arg\<rparr>
      else if token = ''--data-binary'' then c\<lparr>c_data_binary := Some arg\<rparr>
      else if token = ''-F'' \<or> token = ''--form'' then c\<lparr>c_form_data := c_form_data c @ [arg]\<rparr>
      else if token = ''-u'' \<or> token = ''--user'' then take_user arg c
      else c)"

definition without_arg :: "string \<Rightarrow> collected \<Rightarrow> collected" where
  "without_arg token c =
     (if startswith token ''-'' \<or> startswith token ''--'' then c
      else if \<not> truthy (c_url c) then c\<lparr>c_url := Some token\<rparr>
      else c)"

text \<open>Line 175: \<^verbatim>\<open>data_raw or data_binary or data\<close>.\<close>

definition body_content :: "collected \<Rightarrow> string option" where
  "body_content c =
     (if truthy (c_data_raw c) then c_data_raw c
      else if truthy (c_data_binary c) then c_data_binary c
      else c_data c)"

text \<open>Lines 187 to 190: the pairs of a form body.\<close>

definition form_pairs :: "string \<Rightarrow> KeyValuePair list" where
  "form_pairs body =
     map (\<lambda>pair. \<lparr>enabled = True, key = fst (split_first (CHR ''='') pair),
                   value = snd (split_first (CHR ''='') pair)\<rparr>)
       (filter (\<lambda>pair. CHR ''='' \<in> set pair) (py_split (CHR ''&'') body))"

text \<open>Lines 197 to 210: the items of a multipart body.\<close>

definition multipart_items :: "string list \<Rightarrow> MultipartItem list" where
  "multipart_items items =
     map (\<lambda>form_item.
            (let k = fst (split_first (CHR ''='') form_item);
                 v = snd (split_first (CHR ''='') form_item)
             in if startswith v ''@''
                then \<lparr>m_enabled = True, m_key = k, m_type = ''file'', m_value = drop 1 v\<rparr>
                else \<lparr>m_enabled = True, m_key = k, m_type = ''text'', m_value = v\<rparr>))
       (filter (\<lambda>form_item. CHR ''='' \<in> set form_item) items)"

text \<open>Lines 175 to 210: the body of the request.\<close>

definition set_body :: "collected \<Rightarrow> RequestModel \<Rightarrow> RequestModel" where
  "set_body c request =
     (if truthy (body_content c) then
        (let body = py_strip (case body_content c of Some b \<Rightarrow> b | None \<Rightarrow> []) in
         if startswith body ''{'' \<or> startswith body ''['' then
           request\<lparr>body_type := RAW, raw_body_type := JSON, raw_body := body\<rparr>
         else if CHR ''='' \<in> set body \<and> CHR ''&'' \<in> set body then
           request\<lparr>body_type := FORM_URLENCODED, form_data := form_data request @ form_pairs body\<rparr>
         else
           request\<lparr>body_type := RAW, raw_body_type := TEXT, raw_body := body\<rparr>)
      else if c_form_data c \<noteq> [] then
        request\<lparr>body_type := MULTIPART,
                multipart_data := multipart_data request @ multipart_items (c_form_data c)\<rparr>
      else request)"

text \<open>Lines 164 to 171: the authentication.\<close>

definition set_auth :: "collected \<Rightarrow> RequestModel \<Rightarrow> RequestModel" where
  "set_auth c request =
     (if truthy (c_bearer_token c) then
        request\<lparr>auth := AuthConfig_default\<lparr>auth_type := BEARER,
                    bearer_token := (case c_bearer_token c of Some t \<Rightarrow> t | None \<Rightarrow> [])\<rparr>\<rparr>
      else if truthy (c_auth_user c) then
        request\<lparr>auth := AuthConfig_default\<lparr>auth_type := BASIC,
                    username := (case c_auth_user c of Some u \<Rightarrow> u | None \<Rightarrow> []),
                    password := (if truthy (c_auth_pass c)
                                 then (case c_auth_pass c of Some p \<Rightarrow> p | None \<Rightarrow> [])
                                 else [])\<rparr>\<rparr>
      else request)"

text \<open>Lines 143 to 171: the request before its body is set, from what the loop has collected,
  the URL \<open>u\<close> and the result of \<^verbatim>\<open>urlparse\<close> for it.\<close>

definition before_body :: "collected \<Rightarrow> string \<Rightarrow> ParseResult \<Rightarrow> RequestModel" where
  "before_body c u parsed =
     set_auth c
       (RequestModel_default
          \<lparr>method := (case HttpMethod_of (c_method c) of Some m \<Rightarrow> m | None \<Rightarrow> GET),
           url := u,
           query_params :=
             concat (map (\<lambda>(k, vs). map (\<lambda>v. \<lparr>enabled = True, key = k, value = v\<rparr>) vs)
                       (parse_qs (query parsed))),
           headers := map (\<lambda>(k, v). \<lparr>enabled = True, key = k, value = v\<rparr>) (c_headers c)\<rparr>)"

text \<open>Lines 143 to 212: the request.\<close>

definition assemble :: "collected \<Rightarrow> string \<Rightarrow> ParseResult \<Rightarrow> RequestModel" where
  "assemble c u parsed = set_body c (before_body c u parsed)"

text \<open>Lines 19 to 136: what the loop collects from the command.\<close>

definition collect :: "unicodedata \<Rightarrow> string \<Rightarrow> collected" where
  "collect ucd curl_string = scan_tokens ucd collected_init (tokenize (strip_curl curl_string))"

text \<open>
  \<^verbatim>\<open>parse_curl_command\<close>. Every \<^verbatim>\<open>ValueError\<close> leaves the function: the two it raises itself
  (lines 52 and 139) and the one of \<^verbatim>\<open>urlparse\<close> (line 151), which is not caught.
\<close>

definition parse_curl_command :: "(string \<Rightarrow> bool) \<Rightarrow> unicodedata \<Rightarrow> string \<Rightarrow> error + RequestModel" where
  "parse_curl_command netloc_ok ucd curl_string =
     (if tokenize (strip_curl curl_string) = [] then Inl Empty_cURL_command
      else
        (case c_url (collect ucd curl_string) of
           None \<Rightarrow> Inl No_URL_found
         | Some u \<Rightarrow>
             if u = [] then Inl No_URL_found
             else
               (case urlparse netloc_ok u of
                  Inl e \<Rightarrow> Inl e
                | Inr parsed \<Rightarrow> Inr (assemble (collect ucd curl_string) u parsed))))"

text \<open>A network location check that accepts everything, as the interpreters before 3.11.4 do
  for a host in brackets.\<close>

definition accept_all :: "string \<Rightarrow> bool" where
  "accept_all netloc' = True"

section \<open>Exporting a cURL command (curl\_export.py)\<close>

text \<open>Lines 39 to 41 of curl\_export.py, and of http\_client.py with the values
  substituted: the enabled query parameters with a key are put into the dictionary of the
  parameters of the URL, each as a list of one value.\<close>

fun merge_params :: "(string \<times> string list) list \<Rightarrow> KeyValuePair list \<Rightarrow> (string \<times> string list) list" where
  "merge_params existing_params [] = existing_params"
| "merge_params existing_params (param # ps) =
     (if enabled param \<and> key param \<noteq> []
      then merge_params (dict_set (key param) [value param] existing_params) ps
      else merge_params existing_params ps)"

definition header_parts :: "KeyValuePair list \<Rightarrow> string list" where
  "header_parts hs =
     map (\<lambda>header. ''-H '' @ shlex_quote (key header @ '': '' @ value header))
       (filter (\<lambda>header. enabled header \<and> key header \<noteq> []) hs)"

definition auth_parts :: "AuthConfig \<Rightarrow> string list" where
  "auth_parts a =
     (if auth_type a = BASIC then
        (if username a \<noteq> [] \<or> password a \<noteq> []
         then [''-u '' @ shlex_quote (username a @ '':'' @ password a)] else [])
      else if auth_type a = BEARER then
        (if bearer_token a \<noteq> []
         then [''-H '' @ shlex_quote (''Authorization: Bearer '' @ bearer_token a)] else [])
      else [])"

definition form_parts :: "KeyValuePair list \<Rightarrow> string list" where
  "form_parts items =
     map (\<lambda>item. key item @ ''='' @ value item)
       (filter (\<lambda>item. enabled item \<and> key item \<noteq> []) items)"

definition body_parts :: "RequestModel \<Rightarrow> string list" where
  "body_parts request =
     (if body_type request = RAW then
        (if raw_body request \<noteq> [] then [''--data-raw '' @ shlex_quote (raw_body request)] else [])
      else if body_type request = FORM_URLENCODED then
        (if form_data request \<noteq> [] \<and> form_parts (form_data request) \<noteq> []
         then [''--data '' @ shlex_quote (py_join ''&'' (form_parts (form_data request)))] else [])
      else if body_type request = MULTIPART then
        map (\<lambda>item. if m_type item = ''file''
                     then ''-F '' @ shlex_quote (m_key item @ ''=@'' @ m_value item)
                     else ''-F '' @ shlex_quote (m_key item @ ''='' @ m_value item))
          (filter (\<lambda>item. m_enabled item \<and> m_key item \<noteq> []) (multipart_data request))
      else [])"

text \<open>Lines 33 to 47: the URL with the query parameters.\<close>

definition full_url :: "(string \<Rightarrow> bool) \<Rightarrow> RequestModel \<Rightarrow> error + string" where
  "full_url netloc_ok request =
     (case urlparse netloc_ok (url request) of
        Inl e \<Rightarrow> Inl e
      | Inr parsed \<Rightarrow>
          (case urlencode (merge_params (parse_qs (query parsed)) (query_params request)) of
             Inl e \<Rightarrow> Inl e
           | Inr new_query \<Rightarrow> Inr (urlunparse (parsed\<lparr>query := new_query\<rparr>))))"

text \<open>Lines 91 to 96: the proxy, which parses the URL once more.\<close>

definition proxy_parts :: "(string \<Rightarrow> bool) \<Rightarrow> string \<Rightarrow> string \<Rightarrow> string \<Rightarrow> error + string list" where
  "proxy_parts netloc_ok url' proxy_http proxy_https =
     (case urlparse netloc_ok url' of
        Inl e \<Rightarrow> Inl e
      | Inr parsed_url \<Rightarrow>
          Inr (if scheme parsed_url = ''https'' \<and> proxy_https \<noteq> []
                 then [''--proxy '' @ shlex_quote proxy_https]
               else if scheme parsed_url = ''http'' \<and> proxy_http \<noteq> []
                 then [''--proxy '' @ shlex_quote proxy_http]
               else []))"

text \<open>
  \<^verbatim>\<open>generate_curl_command\<close>. The function catches nothing, so the \<^verbatim>\<open>ValueError\<close> of
  \<^verbatim>\<open>urlparse\<close> (lines 34 and 92) and that of \<^verbatim>\<open>urlencode\<close> (line 45) leave it.
\<close>

definition generate_curl_command ::
    "(string \<Rightarrow> bool) \<Rightarrow> RequestModel \<Rightarrow> bool \<Rightarrow> string \<Rightarrow> string \<Rightarrow> bool \<Rightarrow> error + string" where
  "generate_curl_command netloc_ok request include_proxy proxy_http proxy_https ssl_verify =
     (case full_url netloc_ok request of
        Inl e \<Rightarrow> Inl e
      | Inr u \<Rightarrow>
          (case (if include_proxy then proxy_parts netloc_ok u proxy_http proxy_https else Inr []) of
             Inl e \<Rightarrow> Inl e
           | Inr proxy \<Rightarrow>
               Inr (py_join '' ''
                 ([''curl'']
                  @ (if HttpMethod_value (method request) \<noteq> ''GET''
                     then [''-X '' @ HttpMethod_value (method request)] else [])
                  @ [shlex_quote u]
                  @ header_parts (headers request)
                  @ auth_parts (auth request)
                  @ body_parts request
                  @ proxy
                  @ (if \<not> ssl_verify then [''--insecure''] else [])))))"

section \<open>Variable substitution (http\_client.py)\<close>

text \<open>
  \<^verbatim>\<open>
  def substitute_variables(text, env_vars):
      result = text
      for var_name, var_value in env_vars.items():
          placeholder = f"{{{{{var_name}}}}}"
          result = result.replace(placeholder, var_value)
      return result
  \<close>
  The dictionary is the list of its items in iteration order.
\<close>

definition placeholder :: "string \<Rightarrow> string" where
  "placeholder var_name = ''{{'' @ var_name @ ''}}''"

fun substitute_variables :: "string \<Rightarrow> (string \<times> string) list \<Rightarrow> string" where
  "substitute_variables result [] = result"
| "substitute_variables result ((var_name, var_value) # env_vars) =
     substitute_variables (py_replace result (placeholder var_name) var_value) env_vars"

text \<open>
  For the statement of what the function does to a text with placeholders: a text as the
  sequence of its segments, a segment being literal text or a placeholder \<open>{{name}}\<close>. A
  name without braces and literal text that neither has \<open>{{\<close> nor ends with \<open>{\<close> make the
  segments of a text unambiguous.
\<close>

datatype segment = Literal string | Variable string

fun segment_text :: "segment \<Rightarrow> string" where
  "segment_text (Literal l) = l"
| "segment_text (Variable n) = placeholder n"

definition render :: "segment list \<Rightarrow> string" where
  "render segs = concat (map segment_text segs)"

definition no_braces :: "string \<Rightarrow> bool" where
  "no_braces s = (CHR ''{'' \<notin> set s \<and> CHR ''}'' \<notin> set s)"

definition no_opening :: "string \<Rightarrow> bool" where
  "no_opening s = (\<not> sublist ''{{'' (s @ ''{''))"

fun well_formed :: "segment \<Rightarrow> bool" where
  "well_formed (Literal l) = no_opening l"
| "well_formed (Variable n) = no_braces n"

text \<open>What the claim says of a segment: a placeholder whose name is a key becomes the value
  of the key, any other segment stays.\<close>

fun resolve :: "(string \<times> string) list \<Rightarrow> segment \<Rightarrow> segment" where
  "resolve vars (Literal l) = Literal l"
| "resolve vars (Variable n) = (case map_of vars n of Some v \<Rightarrow> Literal v | None \<Rightarrow> Variable n)"

section \<open>Building the URL of a request (http\_client.py)\<close>

text \<open>Lines 28 to 30: the URL is stripped, and one pair of quotes around it removed.\<close>

definition strip_quotes :: "string \<Rightarrow> string" where
  "strip_quotes url0 =
     (let url' = py_strip url0 in
      if (startswith url' [CHR 0x22] \<and> endswith url' [CHR 0x22])
         \<or> (startswith url' [CHR 0x27] \<and> endswith url' [CHR 0x27])
      then butlast (tl url') else url')"

text \<open>Lines 39 to 41: the key of a parameter goes in as it is, the value substituted.\<close>

definition substituted_params :: "KeyValuePair list \<Rightarrow> (string \<times> string) list \<Rightarrow> KeyValuePair list" where
  "substituted_params ps env_vars =
     map (\<lambda>param. param\<lparr>value := substitute_variables (value param) env_vars\<rparr>) ps"

definition build_params ::
    "(string \<times> string list) list \<Rightarrow> KeyValuePair list \<Rightarrow> (string \<times> string) list
     \<Rightarrow> (string \<times> string list) list" where
  "build_params existing_params ps env_vars =
     merge_params existing_params (substituted_params ps env_vars)"

definition build_url :: "(string \<Rightarrow> bool) \<Rightarrow> RequestModel \<Rightarrow> (string \<times> string) list \<Rightarrow> error + string" where
  "build_url netloc_ok request env_vars =
     (case urlparse netloc_ok (strip_quotes (substitute_variables (url request) env_vars)) of
        Inl e \<Rightarrow> Inl e
      | Inr parsed \<Rightarrow>
          (case urlencode (build_params (parse_qs (query parsed)) (query_params request) env_vars) of
             Inl e \<Rightarrow> Inl e
           | Inr new_query \<Rightarrow> Inr (urlunparse (parsed\<lparr>query := new_query\<rparr>))))"

section \<open>Loading the environments (persistence.py)\<close>

text \<open>
  The file \<^verbatim>\<open>environments.json\<close> is absent, or \<^verbatim>\<open>json.load\<close> fails on it (as does
  \<^verbatim>\<open>open\<close>), or it holds a JSON value. An object is the list of its members, the names
  distinct.
\<close>

datatype json = JNull | JBool bool | JNum int | JStr string | JArr "json list"
  | JObj "(string \<times> json) list"

datatype json_file = Absent | Unreadable | Holds json

record Environment =
  name :: json
  variables :: json

text \<open>\<^verbatim>\<open>Environment.from_dict(data)\<close>: \<^verbatim>\<open>data.get\<close> exists for a dictionary only, any
  other value raises \<^verbatim>\<open>AttributeError\<close> (here \<open>None\<close>). The fields are taken as they are
  found.\<close>

definition json_get :: "(string \<times> json) list \<Rightarrow> string \<Rightarrow> json \<Rightarrow> json" where
  "json_get members k dflt = (case map_of members k of Some v \<Rightarrow> v | None \<Rightarrow> dflt)"

fun Environment_from_dict :: "json \<Rightarrow> Environment option" where
  "Environment_from_dict (JObj members) =
     Some \<lparr>name = json_get members ''name'' (JStr []),
           variables = json_get members ''variables'' (JObj [])\<rparr>"
| "Environment_from_dict _ = None"

definition Environment_to_dict :: "Environment \<Rightarrow> json" where
  "Environment_to_dict env = JObj [(''name'', name env), (''variables'', variables env)]"

definition default_envs :: "(string \<times> Environment) list" where
  "default_envs = [(''Default'', \<lparr>name = JStr ''Default'', variables = JObj []\<rparr>)]"

text \<open>\<^verbatim>\<open>save_environments\<close> writes the file, or logs the error of a write that fails and
  leaves the file as it was: \<open>writable\<close> says which.\<close>

definition save_environments :: "bool \<Rightarrow> (string \<times> Environment) list \<Rightarrow> json_file \<Rightarrow> json_file" where
  "save_environments writable environments file =
     (if writable then Holds (JObj (map (\<lambda>(n, env). (n, Environment_to_dict env)) environments))
      else file)"

fun from_dicts :: "(string \<times> json) list \<Rightarrow> (string \<times> Environment) list option" where
  "from_dicts [] = Some []"
| "from_dicts ((n, env_data) # members) =
     (case Environment_from_dict env_data of
        None \<Rightarrow> None
      | Some env \<Rightarrow> (case from_dicts members of None \<Rightarrow> None | Some envs \<Rightarrow> Some ((n, env) # envs)))"

text \<open>\<^verbatim>\<open>load_environments\<close>: the environments and the file afterwards. \<^verbatim>\<open>data.items()\<close>
  raises for a value that is no object, as \<^verbatim>\<open>from_dict\<close> does for a member that is none;
  the \<^verbatim>\<open>except\<close> clause then answers with the default.\<close>

definition load_environments :: "bool \<Rightarrow> json_file \<Rightarrow> (string \<times> Environment) list \<times> json_file" where
  "load_environments writable file =
     (case file of
        Absent \<Rightarrow> (default_envs, save_environments writable default_envs file)
      | Unreadable \<Rightarrow> (default_envs, file)
      | Holds (JObj members) \<Rightarrow>
          (case from_dicts members of
             Some envs \<Rightarrow> (envs, file)
           | None \<Rightarrow> (default_envs, file))
      | Holds _ \<Rightarrow> (default_envs, file))"

text \<open>Lines 233 to 237 of app.py, after the start-up has loaded the environments.\<close>

definition ensure_default ::
    "bool \<Rightarrow> (string \<times> Environment) list \<Rightarrow> json_file \<Rightarrow> (string \<times> Environment) list \<times> json_file" where
  "ensure_default writable environments file =
     (if ''Default'' \<notin> fst ` set environments
      then (let envs = dict_set ''Default'' \<lparr>name = JStr ''Default'', variables = JObj []\<rparr> environments
            in (envs, save_environments writable envs file))
      else (environments, file))"

section \<open>Facts about replacing\<close>

lemma py_replace_Nil: "old \<noteq> [] \<Longrightarrow> py_replace [] old new = []"
  by (simp add: py_replace.simps)

lemma py_replace_match:
  assumes "old \<noteq> []" and "prefix old s"
  shows "py_replace s old new = new @ py_replace (drop (length old) s) old new"
proof -
  from assms have "s \<noteq> []" by auto
  with assms show ?thesis by (subst py_replace.simps) simp
qed

lemma py_replace_skip:
  assumes "old \<noteq> []" and "\<not> prefix old (c # s)"
  shows "py_replace (c # s) old new = c # py_replace s old new"
  using assms by (subst py_replace.simps) simp

lemma py_replace_absent:
  assumes "\<not> sublist old s"
  shows "py_replace s old new = s"
proof -
  from assms have ne: "old \<noteq> []" by auto
  from assms show ?thesis
  proof (induction s)
    case Nil
    with ne show ?case by (simp add: py_replace_Nil)
  next
    case (Cons c s)
    have "\<not> prefix old (c # s)"
      using Cons.prems by (auto dest: prefix_imp_sublist)
    moreover have "\<not> sublist old s"
      using Cons.prems by (simp add: sublist_Cons_right)
    ultimately show ?case
      using ne Cons.IH by (simp add: py_replace_skip)
  qed
qed

lemma prefix_before_end:
  assumes "prefix old (xs @ old @ b)" and "xs \<noteq> []"
  shows "prefix old (xs @ butlast old)"
proof (cases "old = []")
  case True
  then show ?thesis by simp
next
  case False
  let ?n = "length xs + (length old - 1)"
  from assms(1) have "old = take (length old) (xs @ old @ b)"
    by (metis append_eq_conv_conj prefix_def)
  also have "\<dots> = take (length old) (take ?n (xs @ old @ b))"
  proof -
    have "min (length old) ?n = length old"
      using assms(2) by (cases xs) auto
    then show ?thesis by (simp only: take_take)
  qed
  also have "take ?n (xs @ old @ b) = xs @ butlast old"
    using False by (simp add: butlast_conv_take)
  finally have "old = take (length old) (xs @ butlast old)" .
  then show ?thesis by (metis take_is_prefix)
qed

lemma py_replace_first:
  assumes "old \<noteq> []" and "\<not> sublist old (a @ butlast old)"
  shows "py_replace (a @ old @ b) old new = a @ new @ py_replace b old new"
  using assms(2)
proof (induction a)
  case Nil
  from assms(1) show ?case
    by (simp add: py_replace_match)
next
  case (Cons c a)
  have "\<not> prefix old ((c # a) @ old @ b)"
  proof
    assume "prefix old ((c # a) @ old @ b)"
    then have "prefix old ((c # a) @ butlast old)"
      by (rule prefix_before_end) simp
    with Cons.prems show False by (auto dest: prefix_imp_sublist)
  qed
  moreover have "\<not> sublist old (a @ butlast old)"
    using Cons.prems by (simp add: sublist_Cons_right)
  ultimately show ?case
    using assms(1) Cons.IH by (simp add: py_replace_skip)
qed

lemma substitute_variables_append:
  "substitute_variables s (vs @ ws) = substitute_variables (substitute_variables s vs) ws"
  by (induction vs arbitrary: s) auto

lemma substitute_variables_absent:
  "(\<forall>(k, v) \<in> set vars. \<not> sublist (placeholder k) s) \<Longrightarrow> substitute_variables s vars = s"
  by (induction vars arbitrary: s) (auto simp: py_replace_absent)

lemma placeholder_not_Nil: "placeholder k \<noteq> []"
  by (simp add: placeholder_def)

lemma py_replace_all:
  assumes "old \<noteq> []" and "\<forall>a \<in> set as. \<not> sublist old (a @ butlast old)" and "\<not> sublist old b"
  shows "py_replace (concat (map (\<lambda>a. a @ old) as) @ b) old new = concat (map (\<lambda>a. a @ new) as) @ b"
  using assms(2)
proof (induction as)
  case Nil
  from assms(3) show ?case by (simp add: py_replace_absent)
next
  case (Cons a as)
  then have "\<not> sublist old (a @ butlast old)" by simp
  with assms(1) have "py_replace (a @ old @ concat (map (\<lambda>a. a @ old) as) @ b) old new
      = a @ new @ py_replace (concat (map (\<lambda>a. a @ old) as) @ b) old new"
    by (rule py_replace_first)
  with Cons show ?case by simp
qed

lemma py_replace_literal:
  assumes "\<not> sublist [x, x] (l @ [x])"
  shows "py_replace (l @ rest) (x # x # k) v = l @ py_replace rest (x # x # k) v"
  using assms
proof (induction l)
  case Nil
  show ?case by simp
next
  case (Cons c l)
  from Cons.prems have np: "\<not> prefix [x, x] (c # l @ [x])" and ns: "\<not> sublist [x, x] (l @ [x])"
    by (simp_all add: sublist_Cons_right)
  have "\<not> prefix (x # x # k) (c # l @ rest)"
  proof
    assume p: "prefix (x # x # k) (c # l @ rest)"
    show False
    proof (cases l)
      case Nil
      with p np show False by simp
    next
      case (Cons d l')
      with p np show False by auto
    qed
  qed
  then have "py_replace ((c # l) @ rest) (x # x # k) v = c # py_replace (l @ rest) (x # x # k) v"
    by (simp add: py_replace_skip)
  with Cons.IH [OF ns] show ?case by simp
qed

lemma prefix_to_brace:
  assumes "prefix (k @ CHR ''}'' # a) (n @ CHR ''}'' # b)"
    and "CHR ''}'' \<notin> set k" and "CHR ''}'' \<notin> set n"
  shows "k = n"
  using assms
proof (induction k arbitrary: n)
  case Nil
  then show ?case by (cases n) auto
next
  case (Cons c k)
  then show ?case by (cases n) auto
qed

lemma py_replace_variable:
  assumes "no_braces n" and "no_braces k"
  shows "py_replace (placeholder n @ rest) (placeholder k) v
    = segment_text (resolve [(k, v)] (Variable n)) @ py_replace rest (placeholder k) v"
proof (cases "n = k")
  case True
  then show ?thesis
    using py_replace_match [of "placeholder k" "placeholder k @ rest" v]
    by (simp add: placeholder_not_Nil)
next
  case False
  have p: "placeholder k = CHR ''{'' # CHR ''{'' # (k @ ''}}'')"
    "placeholder n @ rest = CHR ''{'' # ((CHR ''{'' # n @ ''}}'') @ rest)"
    by (simp_all add: placeholder_def)
  have "\<not> prefix (placeholder k) (placeholder n @ rest)"
  proof
    assume "prefix (placeholder k) (placeholder n @ rest)"
    then have "prefix (k @ CHR ''}'' # ''}'') (n @ CHR ''}'' # (''}'' @ rest))"
      by (simp add: placeholder_def)
    with assms have "k = n"
      by (intro prefix_to_brace) (auto simp: no_braces_def)
    with False show False by simp
  qed
  then have "py_replace (placeholder n @ rest) (placeholder k) v
      = CHR ''{'' # py_replace ((CHR ''{'' # n @ ''}}'') @ rest) (placeholder k) v"
    unfolding p(2) using py_replace_skip [of "placeholder k" "CHR ''{''" _ v]
    by (simp add: placeholder_not_Nil p(1))
  moreover have "\<not> sublist [CHR ''{'', CHR ''{''] ((CHR ''{'' # n @ ''}}'') @ [CHR ''{''])"
    using assms(1) by (induction n) (auto simp: no_braces_def sublist_Cons_right)
  then have "py_replace ((CHR ''{'' # n @ ''}}'') @ rest) (placeholder k) v
      = (CHR ''{'' # n @ ''}}'') @ py_replace rest (placeholder k) v"
    unfolding p(1) by (rule py_replace_literal)
  ultimately show ?thesis
    using False by (simp add: placeholder_def)
qed

lemma py_replace_render:
  assumes "list_all well_formed segs" and "no_braces k"
  shows "py_replace (render segs) (placeholder k) v = render (map (resolve [(k, v)]) segs)"
  using assms(1)
proof (induction segs)
  case Nil
  show ?case by (simp add: render_def py_replace_Nil placeholder_not_Nil)
next
  case (Cons seg segs)
  then have IH: "py_replace (render segs) (placeholder k) v = render (map (resolve [(k, v)]) segs)"
    by simp
  show ?case
  proof (cases seg)
    case (Literal l)
    with Cons.prems have "\<not> sublist [CHR ''{'', CHR ''{''] (l @ [CHR ''{''])"
      by (simp add: no_opening_def)
    then have "py_replace (l @ render segs) (CHR ''{'' # CHR ''{'' # (k @ ''}}'')) v
        = l @ py_replace (render segs) (CHR ''{'' # CHR ''{'' # (k @ ''}}'')) v"
      by (rule py_replace_literal)
    with IH show ?thesis
      by (simp add: Literal render_def placeholder_def)
  next
    case (Variable n)
    with Cons.prems have "no_braces n" by simp
    from py_replace_variable [OF this assms(2), of "render segs" v] IH show ?thesis
      by (simp add: Variable render_def)
  qed
qed

lemma resolve_step:
  "resolve vars (resolve [(k, v)] seg) = resolve ((k, v) # vars) seg"
  by (cases seg) auto

lemma well_formed_resolve:
  "well_formed seg \<Longrightarrow> no_opening v \<Longrightarrow> well_formed (resolve [(k, v)] seg)"
  by (cases seg) auto

lemma substitute_variables_render:
  assumes "list_all well_formed segs" and "list_all (\<lambda>(k, v). no_braces k \<and> no_opening v) vars"
  shows "substitute_variables (render segs) vars = render (map (resolve vars) segs)"
  using assms
proof (induction vars arbitrary: segs)
  case Nil
  have "resolve [] seg = seg" for seg
    by (cases seg) simp_all
  then have "map (resolve []) segs = segs"
    by (simp add: map_idI)
  then show ?case by simp
next
  case (Cons kv vars)
  obtain k v where kv: "kv = (k, v)" by (cases kv)
  with Cons.prems have k: "no_braces k" and v: "no_opening v"
    and vars: "list_all (\<lambda>(k, v). no_braces k \<and> no_opening v) vars"
    by simp_all
  have wf: "list_all well_formed (map (resolve [(k, v)]) segs)"
    using Cons.prems(1) v by (simp add: list_all_iff well_formed_resolve)
  have "substitute_variables (render segs) (kv # vars)
      = substitute_variables (render (map (resolve [(k, v)]) segs)) vars"
    by (simp add: kv py_replace_render [OF Cons.prems(1) k])
  also have "\<dots> = render (map (resolve vars) (map (resolve [(k, v)]) segs))"
    using wf vars by (rule Cons.IH)
  also have "\<dots> = render (map (resolve (kv # vars)) segs)"
    by (simp add: kv resolve_step comp_def)
  finally show ?case .
qed

text \<open>
  C3, as the code has it. \<^verbatim>\<open>substitute_variables\<close> goes through the keys in the iteration
  order of the map and, for each key \<open>k\<close>, replaces the literal text \<open>{{k}}\<close> in the text as the
  keys before have left it by the value of \<open>k\<close>: every occurrence, found from the left, by plain
  string comparison, for keys of any characters. A text in which no \<open>{{k}}\<close> of a key occurs is
  returned verbatim. For a text of literal parts and placeholders, where the names and the keys
  have no braces and neither a literal part nor a value has \<open>{{\<close> or ends with \<open>{\<close>, every
  placeholder whose name is a key becomes the value of the key and every other placeholder is
  left verbatim. The function is total, there is no error to raise.
\<close>

theorem substitute_variables_replaces_literally:
  "substitute_variables s [] = s
   \<and> substitute_variables s (vs @ (k, v) # ws)
       = substitute_variables (py_replace (substitute_variables s vs) (placeholder k) v) ws
   \<and> ((\<forall>a \<in> set as. \<not> sublist (placeholder k) (a @ butlast (placeholder k)))
        \<and> \<not> sublist (placeholder k) b \<longrightarrow>
        substitute_variables (concat (map (\<lambda>a. a @ placeholder k) as) @ b) [(k, v)]
          = concat (map (\<lambda>a. a @ v) as) @ b)
   \<and> ((\<forall>(k', v') \<in> set vars. \<not> sublist (placeholder k') s) \<longrightarrow>
        substitute_variables s vars = s)
   \<and> (list_all well_formed segs \<and> list_all (\<lambda>(k, v). no_braces k \<and> no_opening v) vars' \<longrightarrow>
        substitute_variables (render segs) vars' = render (map (resolve vars') segs))"
proof (intro conjI impI)
  show "substitute_variables s [] = s"
    by simp
  show "substitute_variables s (vs @ (k, v) # ws)
       = substitute_variables (py_replace (substitute_variables s vs) (placeholder k) v) ws"
    by (simp add: substitute_variables_append)
  show "substitute_variables (concat (map (\<lambda>a. a @ placeholder k) as) @ b) [(k, v)]
          = concat (map (\<lambda>a. a @ v) as) @ b"
    if "(\<forall>a \<in> set as. \<not> sublist (placeholder k) (a @ butlast (placeholder k)))
        \<and> \<not> sublist (placeholder k) b"
    using that py_replace_all [OF placeholder_not_Nil, of as k b v] by simp
  show "substitute_variables s vars = s"
    if "\<forall>(k', v') \<in> set vars. \<not> sublist (placeholder k') s"
    using that by (rule substitute_variables_absent)
  show "substitute_variables (render segs) vars' = render (map (resolve vars') segs)"
    if "list_all well_formed segs \<and> list_all (\<lambda>(k, v). no_braces k \<and> no_opening v) vars'"
    using that by (intro substitute_variables_render) simp_all
qed

theorem substitute_variables_overlap_counterexample:
  "substitute_variables ''{{{a}}}'' [(''a'', ''1''), (''{a}'', ''2'')] = ''{1}''
   \<and> substitute_variables ''{{u}}{{w}}'' [(''u}}{{w'', ''X'')] = ''X''"
  by code_simp

theorem substitute_variables_replaces_literally_witness:
  "substitute_variables ''{{a}}-{{b}}'' ([(''a'', ''1'')] @ (''b'', ''2'') # []) = ''1-2''
   \<and> substitute_variables ''x {{a.b}} y {{a.b}}{{axb}}'' [(''a.b'', ''1'')] = ''x 1 y 1{{axb}}''
   \<and> \<not> sublist (placeholder ''a'') ''{{missing}}''
   \<and> substitute_variables ''{{missing}}'' [(''a'', ''1'')] = ''{{missing}}''
   \<and> substitute_variables ''{\"u\": \"{{user}}\", \"m\": \"{{missing}}\"}'' [(''user'', ''bob'')]
        = ''{\"u\": \"bob\", \"m\": \"{{missing}}\"}''"
proof -
  let ?segs = "[Literal ''{\"u\": \"'', Variable ''user'', Literal ''\", \"m\": \"'',
      Variable ''missing'', Literal ''\"}'']"
  have h3: "(\<forall>a \<in> set [''x '', '' y '']. \<not> sublist (placeholder ''a.b'') (a @ butlast (placeholder ''a.b'')))
      \<and> \<not> sublist (placeholder ''a.b'') ''{{axb}}''"
    by code_simp
  have h4': "\<not> sublist (placeholder ''a'') ''{{missing}}''"
    by code_simp
  then have h4: "\<forall>(k', v') \<in> set [(''a'', ''1'')]. \<not> sublist (placeholder k') ''{{missing}}''"
    by simp
  have h5: "list_all well_formed ?segs
      \<and> list_all (\<lambda>(k, v). no_braces k \<and> no_opening v) [(''user'', ''bob'')]"
    by code_simp
  have e2: "substitute_variables (py_replace (substitute_variables ''{{a}}-{{b}}'' [(''a'', ''1'')])
      (placeholder ''b'') ''2'') [] = ''1-2''"
    by code_simp
  have e3: "concat (map (\<lambda>a. a @ placeholder ''a.b'') [''x '', '' y '']) @ ''{{axb}}''
      = ''x {{a.b}} y {{a.b}}{{axb}}''"
    "concat (map (\<lambda>a. a @ ''1'') [''x '', '' y '']) @ ''{{axb}}'' = ''x 1 y 1{{axb}}''"
    by code_simp+
  have e5: "render ?segs = ''{\"u\": \"{{user}}\", \"m\": \"{{missing}}\"}''"
    "render (map (resolve [(''user'', ''bob'')]) ?segs) = ''{\"u\": \"bob\", \"m\": \"{{missing}}\"}''"
    by code_simp+
  note t = substitute_variables_replaces_literally
    [of "''{{a}}-{{b}}''" "[(''a'', ''1'')]" "''b''" "''2''" "[]" "[''x '', '' y '']" "''{{axb}}''"
        "[(''a'', ''1'')]" ?segs "[(''user'', ''bob'')]"]
  note t' = substitute_variables_replaces_literally
    [of "''{{missing}}''" "[]" "''a.b''" "''1''" "[]" "[''x '', '' y '']" "''{{axb}}''"
        "[(''a'', ''1'')]" ?segs "[(''user'', ''bob'')]"]
  from t have "substitute_variables ''{{a}}-{{b}}'' ([(''a'', ''1'')] @ (''b'', ''2'') # [])
       = substitute_variables (py_replace (substitute_variables ''{{a}}-{{b}}'' [(''a'', ''1'')])
           (placeholder ''b'') ''2'') []"
    by (rule conjunct2 [THEN conjunct1])
  then have w2: "substitute_variables ''{{a}}-{{b}}'' ([(''a'', ''1'')] @ (''b'', ''2'') # []) = ''1-2''"
    using e2 by (rule trans)
  from t' h3 have "substitute_variables (concat (map (\<lambda>a. a @ placeholder ''a.b'') [''x '', '' y ''])
      @ ''{{axb}}'') [(''a.b'', ''1'')] = concat (map (\<lambda>a. a @ ''1'') [''x '', '' y '']) @ ''{{axb}}''"
    by blast
  then have w3: "substitute_variables ''x {{a.b}} y {{a.b}}{{axb}}'' [(''a.b'', ''1'')] = ''x 1 y 1{{axb}}''"
    unfolding e3 .
  from t' h4 have w4: "substitute_variables ''{{missing}}'' [(''a'', ''1'')] = ''{{missing}}''"
    by blast
  from t h5 have "substitute_variables (render ?segs) [(''user'', ''bob'')]
      = render (map (resolve [(''user'', ''bob'')]) ?segs)"
    by blast
  then have w5: "substitute_variables ''{\"u\": \"{{user}}\", \"m\": \"{{missing}}\"}'' [(''user'', ''bob'')]
        = ''{\"u\": \"bob\", \"m\": \"{{missing}}\"}''"
    unfolding e5 .
  from w2 w3 h4' w4 w5 show ?thesis by (intro conjI)
qed

section \<open>Facts about the importer\<close>

lemma scan_flag:
  "scan_tokens ucd c (''-X'' # arg # rest) = scan_tokens ucd (with_arg ucd ''-X'' arg c) rest"
  "scan_tokens ucd c (''--request'' # arg # rest) = scan_tokens ucd (with_arg ucd ''--request'' arg c) rest"
  "scan_tokens ucd c (''-H'' # arg # rest) = scan_tokens ucd (with_arg ucd ''-H'' arg c) rest"
  "scan_tokens ucd c (''--header'' # arg # rest) = scan_tokens ucd (with_arg ucd ''--header'' arg c) rest"
  "scan_tokens ucd c (''-d'' # arg # rest) = scan_tokens ucd (with_arg ucd ''-d'' arg c) rest"
  "scan_tokens ucd c (''--data'' # arg # rest) = scan_tokens ucd (with_arg ucd ''--data'' arg c) rest"
  "scan_tokens ucd c (''--data-raw'' # arg # rest) = scan_tokens ucd (with_arg ucd ''--data-raw'' arg c) rest"
  "scan_tokens ucd c (''--data-binary'' # arg # rest) = scan_tokens ucd (with_arg ucd ''--data-binary'' arg c) rest"
  "scan_tokens ucd c (''-F'' # arg # rest) = scan_tokens ucd (with_arg ucd ''-F'' arg c) rest"
  "scan_tokens ucd c (''--form'' # arg # rest) = scan_tokens ucd (with_arg ucd ''--form'' arg c) rest"
  "scan_tokens ucd c (''-u'' # arg # rest) = scan_tokens ucd (with_arg ucd ''-u'' arg c) rest"
  "scan_tokens ucd c (''--user'' # arg # rest) = scan_tokens ucd (with_arg ucd ''--user'' arg c) rest"
  by (simp_all add: with_arg_def)

lemma scan_flag_last:
  "scan_tokens ucd c [''-X''] = c" "scan_tokens ucd c [''--request''] = c"
  "scan_tokens ucd c [''-H''] = c" "scan_tokens ucd c [''--header''] = c"
  "scan_tokens ucd c [''-d''] = c" "scan_tokens ucd c [''--data''] = c"
  "scan_tokens ucd c [''--data-raw''] = c" "scan_tokens ucd c [''--data-binary''] = c"
  "scan_tokens ucd c [''-F''] = c" "scan_tokens ucd c [''--form''] = c"
  "scan_tokens ucd c [''-u''] = c" "scan_tokens ucd c [''--user''] = c"
  by simp_all

lemma scan_proxy:
  assumes "startswith token ''--proxy''"
  shows "scan_tokens ucd c (token # arg # rest) = scan_tokens ucd (with_arg ucd token arg c) rest"
    and "scan_tokens ucd c [token] = c"
proof -
  from assms obtain zs where t: "token = ''--proxy'' @ zs"
    by (auto simp: startswith_def prefix_def)
  show "scan_tokens ucd c (token # arg # rest) = scan_tokens ucd (with_arg ucd token arg c) rest"
    unfolding t by (simp add: with_arg_def startswith_def)
  show "scan_tokens ucd c [token] = c"
    unfolding t by (simp add: startswith_def)
qed

lemma scan_tokens_arg:
  "takes_arg token \<Longrightarrow> scan_tokens ucd c (token # arg # rest) = scan_tokens ucd (with_arg ucd token arg c) rest"
  unfolding takes_arg_def by (auto simp only: set_simps insert_iff empty_iff scan_flag scan_proxy)

lemma scan_tokens_last:
  "takes_arg token \<Longrightarrow> scan_tokens ucd c [token] = c"
  unfolding takes_arg_def by (auto simp only: set_simps insert_iff empty_iff scan_flag_last scan_proxy)

lemma scan_tokens_no_arg:
  assumes "\<not> takes_arg token"
  shows "scan_tokens ucd c (token # rest) = scan_tokens ucd (without_arg token c) rest"
proof -
  from assms have n: "token \<noteq> ''-X''" "token \<noteq> ''--request''" "token \<noteq> ''-H''"
    "token \<noteq> ''--header''" "token \<noteq> ''-d''" "token \<noteq> ''--data''" "token \<noteq> ''--data-raw''"
    "token \<noteq> ''--data-binary''" "token \<noteq> ''-F''" "token \<noteq> ''--form''" "token \<noteq> ''-u''"
    "token \<noteq> ''--user''" "\<not> startswith token ''--proxy''"
    by (simp_all add: takes_arg_def)
  show ?thesis
    by (simp add: n without_arg_def)
qed

lemmas scan_tokens_step = scan_tokens_arg scan_tokens_last scan_tokens_no_arg

declare scan_tokens.simps(2) [simp del]

lemma with_arg_slots:
  "c_data (with_arg ucd token arg c) = (if token = ''-d'' \<or> token = ''--data'' then Some arg else c_data c)"
  "c_data_raw (with_arg ucd token arg c) = (if token = ''--data-raw'' then Some arg else c_data_raw c)"
  "c_data_binary (with_arg ucd token arg c) = (if token = ''--data-binary'' then Some arg else c_data_binary c)"
  by (auto simp: with_arg_def take_header_def take_user_def Let_def)

lemma without_arg_slots:
  "c_data (without_arg token c) = c_data c"
  "c_data_raw (without_arg token c) = c_data_raw c"
  "c_data_binary (without_arg token c) = c_data_binary c"
  by (simp_all add: without_arg_def)

lemma collected_init_slots:
  "c_data collected_init = None" "c_data_raw collected_init = None"
  "c_data_binary collected_init = None"
  by (simp_all add: collected_init_def)

text \<open>A slot holds what the last flag for it has written, or what it held before the loop.\<close>

lemma scan_slot:
  assumes w: "\<And>token arg c. slot (with_arg ucd token arg c) = (if flag token then Some arg else slot c)"
    and n: "\<And>token c. slot (without_arg token c) = slot c"
    and i: "slot collected_init = None"
  shows "slot (scan_tokens ucd c ts) =
           (case slot (scan_tokens ucd collected_init ts) of None \<Rightarrow> slot c | Some v \<Rightarrow> Some v)"
proof (induction "length ts" arbitrary: ts c rule: less_induct)
  case less
  show ?case
  proof (cases ts)
    case Nil
    then show ?thesis by (simp add: i)
  next
    case (Cons token rest)
    note ts = Cons
    show ?thesis
    proof (cases "takes_arg token")
      case False
      have "slot (scan_tokens ucd c ts) = slot (scan_tokens ucd (without_arg token c) rest)"
        using False ts by (simp add: scan_tokens_no_arg)
      also have "\<dots> = (case slot (scan_tokens ucd collected_init rest) of None \<Rightarrow> slot c | Some v \<Rightarrow> Some v)"
        using less[of rest "without_arg token c"] ts by (simp add: n split: option.splits)
      also have "slot (scan_tokens ucd collected_init rest) = slot (scan_tokens ucd collected_init ts)"
        using less[of rest "without_arg token collected_init"] False ts
        by (simp add: scan_tokens_no_arg n i split: option.splits)
      finally show ?thesis .
    next
      case True
      show ?thesis
      proof (cases rest)
        case Nil
        with True ts show ?thesis by (simp add: scan_tokens_last i)
      next
        case (Cons arg rest')
        have a: "slot (scan_tokens ucd c ts) = slot (scan_tokens ucd (with_arg ucd token arg c) rest')"
          using True ts Cons by (simp add: scan_tokens_arg)
        have b: "slot (scan_tokens ucd collected_init ts) = slot (scan_tokens ucd (with_arg ucd token arg collected_init) rest')"
          using True ts Cons by (simp add: scan_tokens_arg)
        have c1: "slot (scan_tokens ucd (with_arg ucd token arg c) rest') =
            (case slot (scan_tokens ucd collected_init rest') of
               None \<Rightarrow> slot (with_arg ucd token arg c) | Some v \<Rightarrow> Some v)"
          using less[of rest' "with_arg ucd token arg c"] ts Cons by simp
        have c2: "slot (scan_tokens ucd (with_arg ucd token arg collected_init) rest') =
            (case slot (scan_tokens ucd collected_init rest') of
               None \<Rightarrow> slot (with_arg ucd token arg collected_init) | Some v \<Rightarrow> Some v)"
          using less[of rest' "with_arg ucd token arg collected_init"] ts Cons by simp
        show ?thesis
          unfolding a b c1 c2 by (simp add: w i split: option.splits)
      qed
    qed
  qed
qed

lemmas scan_data = scan_slot [where slot = c_data, OF with_arg_slots(1) without_arg_slots(1) collected_init_slots(1)]
lemmas scan_data_raw = scan_slot [where slot = c_data_raw, OF with_arg_slots(2) without_arg_slots(2) collected_init_slots(2)]
lemmas scan_data_binary = scan_slot [where slot = c_data_binary, OF with_arg_slots(3) without_arg_slots(3) collected_init_slots(3)]

lemma parse_curl_command_Inr:
  assumes "parse_curl_command netloc_ok ucd curl_string = Inr request"
  shows "\<exists>u parsed. c_url (collect ucd curl_string) = Some u \<and> u \<noteq> []
           \<and> urlparse netloc_ok u = Inr parsed
           \<and> request = assemble (collect ucd curl_string) u parsed"
  using assms
  by (auto simp: parse_curl_command_def split: if_splits option.splits sum.splits)

lemma set_auth_keeps_body:
  "body_type (set_auth c r) = body_type r"
  "raw_body_type (set_auth c r) = raw_body_type r"
  "raw_body (set_auth c r) = raw_body r"
  "form_data (set_auth c r) = form_data r"
  "multipart_data (set_auth c r) = multipart_data r"
  by (simp_all add: set_auth_def)

lemma before_body_empty:
  "body_type (before_body c u parsed) = BODY_NONE"
  "raw_body_type (before_body c u parsed) = TEXT"
  "raw_body (before_body c u parsed) = []"
  "form_data (before_body c u parsed) = []"
  "multipart_data (before_body c u parsed) = []"
  by (simp_all add: before_body_def set_auth_keeps_body RequestModel_default_def)

lemma before_body_slots:
  "before_body (c\<lparr>c_data := x\<rparr>) u parsed = before_body c u parsed"
  "before_body (c\<lparr>c_data_raw := x\<rparr>) u parsed = before_body c u parsed"
  "before_body (c\<lparr>c_data_binary := x\<rparr>) u parsed = before_body c u parsed"
  by (simp_all add: before_body_def set_auth_def)

lemma assemble_present:
  assumes "body_content c = Some b" and "b \<noteq> []"
  shows "assemble c u parsed =
     (let body = py_strip b; request = before_body c u parsed in
         if startswith body ''{'' \<or> startswith body ''['' then
           request\<lparr>body_type := RAW, raw_body_type := JSON, raw_body := body\<rparr>
         else if CHR ''='' \<in> set body \<and> CHR ''&'' \<in> set body then
           request\<lparr>body_type := FORM_URLENCODED, form_data := form_pairs body\<rparr>
         else
           request\<lparr>body_type := RAW, raw_body_type := TEXT, raw_body := body\<rparr>)"
  using assms by (simp add: assemble_def set_body_def Let_def before_body_empty)

lemma truthy_Some_Nil: "truthy (Some []) = truthy None"
  by simp

lemma body_content_empty:
  "body_content (c\<lparr>c_data_raw := Some []\<rparr>) = body_content (c\<lparr>c_data_raw := None\<rparr>)"
  "body_content (c\<lparr>c_data_binary := Some []\<rparr>) = body_content (c\<lparr>c_data_binary := None\<rparr>)"
  by (simp_all add: body_content_def)

text \<open>
  C10. An empty string in a body slot counts as absent when the request is assembled: the
  request is the one assembled with the slot at \<^verbatim>\<open>None\<close>. So an empty \<^verbatim>\<open>--data-raw\<close>
  value leaves the choice to \<^verbatim>\<open>--data-binary\<close> or \<^verbatim>\<open>--data\<close>, and with no value
  that is not empty in any slot and no \<^verbatim>\<open>-F\<close> item the body kind is none. Every request
  that \<^verbatim>\<open>parse_curl_command\<close> returns is assembled in this way from what the loop collected.
\<close>

theorem empty_slot_is_absent:
  "assemble (c\<lparr>c_data_raw := Some []\<rparr>) u parsed = assemble (c\<lparr>c_data_raw := None\<rparr>) u parsed
   \<and> assemble (c\<lparr>c_data_binary := Some []\<rparr>) u parsed = assemble (c\<lparr>c_data_binary := None\<rparr>) u parsed
   \<and> assemble (c\<lparr>c_data := Some []\<rparr>) u parsed = assemble (c\<lparr>c_data := None\<rparr>) u parsed
   \<and> (\<not> truthy (c_data_raw c) \<longrightarrow>
        body_content c = (if truthy (c_data_binary c) then c_data_binary c else c_data c))
   \<and> (\<not> truthy (c_data_raw c) \<and> \<not> truthy (c_data_binary c) \<and> \<not> truthy (c_data c)
        \<and> c_form_data c = [] \<longrightarrow> body_type (assemble c u parsed) = BODY_NONE)
   \<and> (parse_curl_command netloc_ok ucd curl_string = Inr request \<longrightarrow>
        (\<exists>u' parsed'. c_url (collect ucd curl_string) = Some u' \<and> urlparse netloc_ok u' = Inr parsed'
           \<and> request = assemble (collect ucd curl_string) u' parsed'))"
proof (intro conjI impI)
  show "assemble (c\<lparr>c_data_raw := Some []\<rparr>) u parsed = assemble (c\<lparr>c_data_raw := None\<rparr>) u parsed"
    by (simp add: assemble_def set_body_def before_body_slots body_content_empty)
  show "assemble (c\<lparr>c_data_binary := Some []\<rparr>) u parsed = assemble (c\<lparr>c_data_binary := None\<rparr>) u parsed"
    by (simp add: assemble_def set_body_def before_body_slots body_content_empty)
  show "assemble (c\<lparr>c_data := Some []\<rparr>) u parsed = assemble (c\<lparr>c_data := None\<rparr>) u parsed"
    by (auto simp: assemble_def set_body_def before_body_slots body_content_def)
  show "body_content c = (if truthy (c_data_binary c) then c_data_binary c else c_data c)"
    if "\<not> truthy (c_data_raw c)"
    using that by (simp add: body_content_def)
  show "body_type (assemble c u parsed) = BODY_NONE"
    if "\<not> truthy (c_data_raw c) \<and> \<not> truthy (c_data_binary c) \<and> \<not> truthy (c_data c)
        \<and> c_form_data c = []"
    using that by (simp add: assemble_def set_body_def body_content_def before_body_empty)
  show "\<exists>u' parsed'. c_url (collect ucd curl_string) = Some u' \<and> urlparse netloc_ok u' = Inr parsed'
           \<and> request = assemble (collect ucd curl_string) u' parsed'"
    if "parse_curl_command netloc_ok ucd curl_string = Inr request"
    using parse_curl_command_Inr [OF that] by blast
qed

theorem empty_slot_is_absent_witness:
  "c_data_raw (collect no_tables ''curl --data-raw \"\" --data-binary x http://h'') = Some []
   \<and> body_content (collect no_tables ''curl --data-raw \"\" --data-binary x http://h'') = Some ''x''
   \<and> map_sum id raw_body (parse_curl_command accept_all no_tables ''curl --data-raw \"\" --data-binary x http://h'')
       = Inr ''x''
   \<and> c_data_raw (collect no_tables ''curl --data-raw \"\" -d \"\" http://h'') = Some []
   \<and> c_data (collect no_tables ''curl --data-raw \"\" -d \"\" http://h'') = Some []
   \<and> map_sum id body_type (parse_curl_command accept_all no_tables ''curl --data-raw \"\" -d \"\" http://h'')
       = Inr BODY_NONE"
proof -
  let ?s1 = "''curl --data-raw \"\" --data-binary x http://h''"
  let ?s2 = "''curl --data-raw \"\" -d \"\" http://h''"
  have c1: "collect no_tables ?s1 = collected_init\<lparr>c_url := Some ''http://h'', c_data_raw := Some [],
      c_data_binary := Some ''x''\<rparr>"
    by code_simp
  have c2: "collect no_tables ?s2 = collected_init\<lparr>c_url := Some ''http://h'', c_data := Some [],
      c_data_raw := Some []\<rparr>"
    by code_simp
  have p1: "map_sum id raw_body (parse_curl_command accept_all no_tables ?s1) = Inr ''x''"
    by code_simp
  obtain r2 where p2: "parse_curl_command accept_all no_tables ?s2 = Inr r2"
    by (cases "parse_curl_command accept_all no_tables ?s2") (simp_all, code_simp)
  have h1: "\<not> truthy (c_data_raw (collect no_tables ?s1))"
    and v1: "(if truthy (c_data_binary (collect no_tables ?s1)) then c_data_binary (collect no_tables ?s1)
              else c_data (collect no_tables ?s1)) = Some ''x''"
    unfolding c1 by (simp_all add: collected_init_def)
  have h2: "\<not> truthy (c_data_raw (collect no_tables ?s2)) \<and> \<not> truthy (c_data_binary (collect no_tables ?s2))
      \<and> \<not> truthy (c_data (collect no_tables ?s2)) \<and> c_form_data (collect no_tables ?s2) = []"
    unfolding c2 by (simp add: collected_init_def)
  note t = empty_slot_is_absent [of "collect no_tables ?s1" "[]" undefined accept_all no_tables ?s2 r2]
  from t have "\<not> truthy (c_data_raw (collect no_tables ?s1)) \<longrightarrow>
      body_content (collect no_tables ?s1) = (if truthy (c_data_binary (collect no_tables ?s1))
        then c_data_binary (collect no_tables ?s1) else c_data (collect no_tables ?s1))"
    by blast
  with h1 v1 have b1: "body_content (collect no_tables ?s1) = Some ''x''"
    by simp
  from t p2 obtain u' parsed' where r2: "r2 = assemble (collect no_tables ?s2) u' parsed'"
    by blast
  note t' = empty_slot_is_absent [of "collect no_tables ?s2" u' parsed' accept_all no_tables ?s2 r2]
  from t' have "\<not> truthy (c_data_raw (collect no_tables ?s2)) \<and> \<not> truthy (c_data_binary (collect no_tables ?s2))
      \<and> \<not> truthy (c_data (collect no_tables ?s2)) \<and> c_form_data (collect no_tables ?s2) = []
      \<longrightarrow> body_type (assemble (collect no_tables ?s2) u' parsed') = BODY_NONE"
    by blast
  with h2 have "body_type (assemble (collect no_tables ?s2) u' parsed') = BODY_NONE"
    by blast
  with r2 p2 have b2: "map_sum id body_type (parse_curl_command accept_all no_tables ?s2) = Inr BODY_NONE"
    by simp
  from c1 have d1: "c_data_raw (collect no_tables ?s1) = Some []" by simp
  from c2 have d2: "c_data_raw (collect no_tables ?s2) = Some []" and d3: "c_data (collect no_tables ?s2) = Some []"
    by simp_all
  from d1 b1 p1 d2 d3 b2 show ?thesis by (intro conjI)
qed

text \<open>
  C5. When a data, data-raw or data-binary value is present (the content chosen is a string
  that is not empty), it is stripped and classified: with a leading \<^verbatim>\<open>{\<close> or \<^verbatim>\<open>[\<close> the body is
  raw JSON; otherwise, with both \<^verbatim>\<open>=\<close> and \<^verbatim>\<open>&\<close> in it, the body is form-urlencoded, the
  content split at every \<^verbatim>\<open>&\<close> and each part with a \<^verbatim>\<open>=\<close> split at its first \<^verbatim>\<open>=\<close>;
  otherwise the body is raw text.
\<close>

theorem body_classification:
  assumes "parse_curl_command netloc_ok ucd curl_string = Inr request"
    and "body_content (collect ucd curl_string) = Some b" and "b \<noteq> []"
  shows "(startswith (py_strip b) ''{'' \<or> startswith (py_strip b) ''['' \<longrightarrow>
            body_type request = RAW \<and> raw_body_type request = JSON \<and> raw_body request = py_strip b)
       \<and> (\<not> startswith (py_strip b) ''{'' \<and> \<not> startswith (py_strip b) ''[''
            \<and> CHR ''='' \<in> set (py_strip b) \<and> CHR ''&'' \<in> set (py_strip b) \<longrightarrow>
            body_type request = FORM_URLENCODED
            \<and> form_data request =
                map (\<lambda>pair. \<lparr>enabled = True, key = fst (split_first (CHR ''='') pair),
                              value = snd (split_first (CHR ''='') pair)\<rparr>)
                  (filter (\<lambda>pair. CHR ''='' \<in> set pair) (py_split (CHR ''&'') (py_strip b))))
       \<and> (\<not> startswith (py_strip b) ''{'' \<and> \<not> startswith (py_strip b) ''[''
            \<and> \<not> (CHR ''='' \<in> set (py_strip b) \<and> CHR ''&'' \<in> set (py_strip b)) \<longrightarrow>
            body_type request = RAW \<and> raw_body_type request = TEXT \<and> raw_body request = py_strip b)"
proof -
  from assms(1) obtain u parsed where "request = assemble (collect ucd curl_string) u parsed"
    by (blast dest: parse_curl_command_Inr)
  with assms(2,3) show ?thesis
    by (simp add: assemble_present Let_def before_body_empty form_pairs_def)
qed

theorem body_classification_witness:
  "map_sum id (\<lambda>r. (body_type r, raw_body_type r, raw_body r))
     (parse_curl_command accept_all no_tables ''curl -d '{\"a\":1}' https://x.test'')
     = Inr (RAW, JSON, ''{\"a\":1}'')
   \<and> map_sum id (\<lambda>r. (body_type r, form_data r))
     (parse_curl_command accept_all no_tables ''curl -d \"a=1&b=2\" https://x.test'')
     = Inr (FORM_URLENCODED, [\<lparr>enabled = True, key = ''a'', value = ''1''\<rparr>,
                             \<lparr>enabled = True, key = ''b'', value = ''2''\<rparr>])
   \<and> map_sum id (\<lambda>r. (body_type r, raw_body_type r, raw_body r))
     (parse_curl_command accept_all no_tables ''curl -d \" plaintext \" https://x.test'')
     = Inr (RAW, TEXT, ''plaintext'')"
proof -
  let ?s1 = "''curl -d '{\"a\":1}' https://x.test''"
  let ?s2 = "''curl -d \"a=1&b=2\" https://x.test''"
  let ?s3 = "''curl -d \" plaintext \" https://x.test''"
  obtain r1 where p1: "parse_curl_command accept_all no_tables ?s1 = Inr r1"
    by (cases "parse_curl_command accept_all no_tables ?s1") (simp_all, code_simp)
  obtain r2 where p2: "parse_curl_command accept_all no_tables ?s2 = Inr r2"
    by (cases "parse_curl_command accept_all no_tables ?s2") (simp_all, code_simp)
  obtain r3 where p3: "parse_curl_command accept_all no_tables ?s3 = Inr r3"
    by (cases "parse_curl_command accept_all no_tables ?s3") (simp_all, code_simp)
  have b1: "body_content (collect no_tables ?s1) = Some ''{\"a\":1}''"
    by code_simp
  have b2: "body_content (collect no_tables ?s2) = Some ''a=1&b=2''"
    by code_simp
  have b3: "body_content (collect no_tables ?s3) = Some '' plaintext ''"
    by code_simp
  have s1: "py_strip ''{\"a\":1}'' = ''{\"a\":1}''"
    and s2: "py_strip ''a=1&b=2'' = ''a=1&b=2''"
    and s3: "py_strip '' plaintext '' = ''plaintext''"
    by code_simp+
  have f2: "map (\<lambda>pair. \<lparr>enabled = True, key = fst (split_first (CHR ''='') pair),
                              value = snd (split_first (CHR ''='') pair)\<rparr>)
                  (filter (\<lambda>pair. CHR ''='' \<in> set pair) (py_split (CHR ''&'') ''a=1&b=2''))
      = [\<lparr>enabled = True, key = ''a'', value = ''1''\<rparr>, \<lparr>enabled = True, key = ''b'', value = ''2''\<rparr>]"
    by (simp add: split_first_def)
  from body_classification [OF p1 b1] s1
  have c1: "body_type r1 = RAW \<and> raw_body_type r1 = JSON \<and> raw_body r1 = ''{\"a\":1}''"
    by (simp add: startswith_def)
  from body_classification [OF p2 b2] s2 f2
  have c2: "body_type r2 = FORM_URLENCODED \<and> form_data r2
      = [\<lparr>enabled = True, key = ''a'', value = ''1''\<rparr>, \<lparr>enabled = True, key = ''b'', value = ''2''\<rparr>]"
    by (simp add: startswith_def)
  from body_classification [OF p3 b3] s3
  have c3: "body_type r3 = RAW \<and> raw_body_type r3 = TEXT \<and> raw_body r3 = ''plaintext''"
    by (simp add: startswith_def)
  from p1 p2 p3 c1 c2 c3 show ?thesis by simp
qed

text \<open>
  C4, as the code has it. Each of \<^verbatim>\<open>-d\<close>/\<^verbatim>\<open>--data\<close>, \<^verbatim>\<open>--data-raw\<close> and \<^verbatim>\<open>--data-binary\<close>
  writes its argument into its own slot and leaves the two other slots alone. A slot is
  overwritten by every later flag for it: it holds the argument of the last one, the argument of
  an earlier flag only when the rest of the command has no flag for the slot. The content of
  the body is the first of data-raw, data-binary and data that is not empty, and the body of the
  request that \<^verbatim>\<open>parse_curl_command\<close> returns is made of it.
\<close>

theorem data_slots_last_wins:
  "(flag = ''-d'' \<or> flag = ''--data'' \<longrightarrow>
      c_data (scan_tokens ucd c (flag # a # rest))
        = (case c_data (scan_tokens ucd collected_init rest) of Some b \<Rightarrow> Some b | None \<Rightarrow> Some a)
      \<and> c_data_raw (scan_tokens ucd c (flag # a # rest)) = c_data_raw (scan_tokens ucd c rest)
      \<and> c_data_binary (scan_tokens ucd c (flag # a # rest)) = c_data_binary (scan_tokens ucd c rest))
   \<and> c_data_raw (scan_tokens ucd c (''--data-raw'' # a # rest))
        = (case c_data_raw (scan_tokens ucd collected_init rest) of Some b \<Rightarrow> Some b | None \<Rightarrow> Some a)
   \<and> c_data (scan_tokens ucd c (''--data-raw'' # a # rest)) = c_data (scan_tokens ucd c rest)
   \<and> c_data_binary (scan_tokens ucd c (''--data-raw'' # a # rest)) = c_data_binary (scan_tokens ucd c rest)
   \<and> c_data_binary (scan_tokens ucd c (''--data-binary'' # a # rest))
        = (case c_data_binary (scan_tokens ucd collected_init rest) of Some b \<Rightarrow> Some b | None \<Rightarrow> Some a)
   \<and> c_data (scan_tokens ucd c (''--data-binary'' # a # rest)) = c_data (scan_tokens ucd c rest)
   \<and> c_data_raw (scan_tokens ucd c (''--data-binary'' # a # rest)) = c_data_raw (scan_tokens ucd c rest)
   \<and> body_content c'
        = (if truthy (c_data_raw c') then c_data_raw c'
           else if truthy (c_data_binary c') then c_data_binary c' else c_data c')
   \<and> (parse_curl_command netloc_ok ucd curl_string = Inr request
        \<and> body_content (collect ucd curl_string) = Some content \<and> content \<noteq> [] \<longrightarrow>
        raw_body request = py_strip content \<or> form_data request = form_pairs (py_strip content))"
proof -
  have d: "c_data (scan_tokens ucd c (flag # a # rest))
        = (case c_data (scan_tokens ucd collected_init rest) of Some b \<Rightarrow> Some b | None \<Rightarrow> Some a)
      \<and> c_data_raw (scan_tokens ucd c (flag # a # rest)) = c_data_raw (scan_tokens ucd c rest)
      \<and> c_data_binary (scan_tokens ucd c (flag # a # rest)) = c_data_binary (scan_tokens ucd c rest)"
    if "flag = ''-d'' \<or> flag = ''--data''"
  proof -
    from that have s: "scan_tokens ucd c (flag # a # rest) = scan_tokens ucd (with_arg ucd flag a c) rest"
      by (auto simp: scan_flag)
    from that show ?thesis
      unfolding s
      by (subst scan_data, subst scan_data_raw, subst (2) scan_data_raw,
          subst scan_data_binary, subst (2) scan_data_binary)
        (auto simp: with_arg_slots split: option.splits)
  qed
  have r: "c_data_raw (scan_tokens ucd c (''--data-raw'' # a # rest))
        = (case c_data_raw (scan_tokens ucd collected_init rest) of Some b \<Rightarrow> Some b | None \<Rightarrow> Some a)
      \<and> c_data (scan_tokens ucd c (''--data-raw'' # a # rest)) = c_data (scan_tokens ucd c rest)
      \<and> c_data_binary (scan_tokens ucd c (''--data-raw'' # a # rest)) = c_data_binary (scan_tokens ucd c rest)"
    unfolding scan_flag
    by (subst scan_data_raw, subst scan_data, subst (2) scan_data,
        subst scan_data_binary, subst (2) scan_data_binary)
      (auto simp: with_arg_slots split: option.splits)
  have b: "c_data_binary (scan_tokens ucd c (''--data-binary'' # a # rest))
        = (case c_data_binary (scan_tokens ucd collected_init rest) of Some b \<Rightarrow> Some b | None \<Rightarrow> Some a)
      \<and> c_data (scan_tokens ucd c (''--data-binary'' # a # rest)) = c_data (scan_tokens ucd c rest)
      \<and> c_data_raw (scan_tokens ucd c (''--data-binary'' # a # rest)) = c_data_raw (scan_tokens ucd c rest)"
    unfolding scan_flag
    by (subst scan_data_binary, subst scan_data, subst (2) scan_data,
        subst scan_data_raw, subst (2) scan_data_raw)
      (auto simp: with_arg_slots split: option.splits)
  have p: "raw_body request = py_strip content \<or> form_data request = form_pairs (py_strip content)"
    if "parse_curl_command netloc_ok ucd curl_string = Inr request
        \<and> body_content (collect ucd curl_string) = Some content \<and> content \<noteq> []"
  proof -
    from that obtain u parsed where "request = assemble (collect ucd curl_string) u parsed"
      by (blast dest: parse_curl_command_Inr)
    with that show ?thesis
      by (simp add: assemble_present Let_def)
  qed
  from d r b p show ?thesis
    by (simp add: body_content_def)
qed

theorem first_found_wins_counterexample:
  "c_data (collect no_tables ''curl -d first -d second http://x.test'') = Some ''second''
   \<and> map_sum id raw_body (parse_curl_command accept_all no_tables ''curl -d first -d second http://x.test'')
       = Inr ''second''"
  by code_simp

theorem data_slots_last_wins_witness:
  "c_data (scan_tokens no_tables collected_init [''-d'', ''first'', ''-d'', ''second'', ''http://x.test''])
     = Some ''second''
   \<and> c_data (scan_tokens no_tables collected_init [''-d'', ''first'', ''--data-raw'', ''second'', ''http://x.test''])
     = Some ''first''
   \<and> body_content (collect no_tables ''curl -d first --data-binary second --data-raw third http://x.test'')
     = Some ''third''
   \<and> map_sum id raw_body
       (parse_curl_command accept_all no_tables ''curl -d first --data-binary second --data-raw third http://x.test'')
     = Inr ''third''"
proof -
  let ?s = "''curl -d first --data-binary second --data-raw third http://x.test''"
  have e1: "c_data (scan_tokens no_tables collected_init [''-d'', ''second'', ''http://x.test'']) = Some ''second''"
    by code_simp
  have e2: "c_data (scan_tokens no_tables collected_init [''--data-raw'', ''second'', ''http://x.test'']) = None"
    by code_simp
  note t1 = data_slots_last_wins [of "''-d''" no_tables collected_init "''first''"
      "[''-d'', ''second'', ''http://x.test'']"]
  note t2 = data_slots_last_wins [of "''-d''" no_tables collected_init "''first''"
      "[''--data-raw'', ''second'', ''http://x.test'']"]
  from t1 have "c_data (scan_tokens no_tables collected_init (''-d'' # ''first'' # [''-d'', ''second'', ''http://x.test'']))
      = (case c_data (scan_tokens no_tables collected_init [''-d'', ''second'', ''http://x.test'']) of
           Some b \<Rightarrow> Some b | None \<Rightarrow> Some ''first'')"
    by blast
  with e1 have w1: "c_data (scan_tokens no_tables collected_init [''-d'', ''first'', ''-d'', ''second'', ''http://x.test''])
     = Some ''second''"
    by simp
  from t2 have "c_data (scan_tokens no_tables collected_init (''-d'' # ''first'' # [''--data-raw'', ''second'', ''http://x.test'']))
      = (case c_data (scan_tokens no_tables collected_init [''--data-raw'', ''second'', ''http://x.test'']) of
           Some b \<Rightarrow> Some b | None \<Rightarrow> Some ''first'')"
    by blast
  with e2 have w2: "c_data (scan_tokens no_tables collected_init [''-d'', ''first'', ''--data-raw'', ''second'', ''http://x.test''])
     = Some ''first''"
    by simp
  have w3: "body_content (collect no_tables ?s) = Some ''third''"
    by code_simp
  have w4: "map_sum id raw_body (parse_curl_command accept_all no_tables ?s) = Inr ''third''"
    by code_simp
  from w1 w2 w3 w4 show ?thesis by (intro conjI)
qed

lemma set_body_keeps:
  "method (set_body c r) = method r"
  "url (set_body c r) = url r"
  "headers (set_body c r) = headers r"
  "query_params (set_body c r) = query_params r"
  "auth (set_body c r) = auth r"
  by (simp_all add: set_body_def Let_def)

lemma set_auth_keeps:
  "method (set_auth c r) = method r"
  "url (set_auth c r) = url r"
  "headers (set_auth c r) = headers r"
  "query_params (set_auth c r) = query_params r"
  by (simp_all add: set_auth_def)

lemma assemble_fields:
  "method (assemble c u parsed) = (case HttpMethod_of (c_method c) of Some m \<Rightarrow> m | None \<Rightarrow> GET)"
  "url (assemble c u parsed) = u"
  "headers (assemble c u parsed) = map (\<lambda>(k, v). \<lparr>enabled = True, key = k, value = v\<rparr>) (c_headers c)"
  "auth (assemble c u parsed) = auth (set_auth c RequestModel_default)"
  by (simp_all add: assemble_def before_body_def set_body_keeps set_auth_keeps)
     (simp add: set_auth_def)

lemma collect_no_tokens:
  "tokenize (strip_curl curl_string) = [] \<Longrightarrow> c_url (collect ucd curl_string) = None"
  by (simp add: collect_def collected_init_def)

text \<open>
  C2, as the code has it. \<^verbatim>\<open>parse_curl_command\<close> raises \<^verbatim>\<open>ValueError\<close> if and only if the loop
  has found no URL that is not empty, or \<^verbatim>\<open>urlparse\<close> raises on the URL it has found. In every
  other case it returns a request: a token that starts with \<^verbatim>\<open>-\<close> and is no flag it knows is
  passed over, a method that is no member of \<^verbatim>\<open>HttpMethod\<close> gives GET, and the argument of
  \<^verbatim>\<open>-u\<close> without a colon is the user name, the password staying as it was (empty when there
  was none, and no bearer token was seen).
\<close>

theorem parse_raises_iff:
  "isl (parse_curl_command netloc_ok ucd curl_string)
     = (case c_url (collect ucd curl_string) of
          None \<Rightarrow> True
        | Some u \<Rightarrow> u = [] \<or> isl (urlparse netloc_ok u))
   \<and> (startswith token ''-'' \<and> \<not> takes_arg token \<longrightarrow>
        scan_tokens ucd c (token # rest) = scan_tokens ucd c rest)
   \<and> (parse_curl_command netloc_ok ucd curl_string = Inr request \<longrightarrow>
        method request
          = (case HttpMethod_of (c_method (collect ucd curl_string)) of Some m \<Rightarrow> m | None \<Rightarrow> GET))
   \<and> (CHR '':'' \<notin> set auth_str \<longrightarrow> take_user auth_str c = c\<lparr>c_auth_user := Some auth_str\<rparr>)
   \<and> (parse_curl_command netloc_ok ucd curl_string = Inr request
        \<and> \<not> truthy (c_bearer_token (collect ucd curl_string))
        \<and> c_auth_user (collect ucd curl_string) = Some user \<and> user \<noteq> []
        \<and> c_auth_pass (collect ucd curl_string) = None \<longrightarrow>
        auth request = \<lparr>auth_type = BASIC, username = user, password = [], bearer_token = []\<rparr>)"
proof (intro conjI impI)
  show "isl (parse_curl_command netloc_ok ucd curl_string)
     = (case c_url (collect ucd curl_string) of
          None \<Rightarrow> True
        | Some u \<Rightarrow> u = [] \<or> isl (urlparse netloc_ok u))"
    by (auto simp: parse_curl_command_def collect_no_tokens split: option.splits sum.splits)
  show "scan_tokens ucd c (token # rest) = scan_tokens ucd c rest"
    if "startswith token ''-'' \<and> \<not> takes_arg token"
    using that by (simp add: scan_tokens_no_arg without_arg_def)
  show "method request
          = (case HttpMethod_of (c_method (collect ucd curl_string)) of Some m \<Rightarrow> m | None \<Rightarrow> GET)"
    if "parse_curl_command netloc_ok ucd curl_string = Inr request"
    using parse_curl_command_Inr [OF that] by (auto simp: assemble_fields)
  show "take_user auth_str c = c\<lparr>c_auth_user := Some auth_str\<rparr>"
    if "CHR '':'' \<notin> set auth_str"
    using that by (simp add: take_user_def)
  show "auth request = \<lparr>auth_type = BASIC, username = user, password = [], bearer_token = []\<rparr>"
    if "parse_curl_command netloc_ok ucd curl_string = Inr request
        \<and> \<not> truthy (c_bearer_token (collect ucd curl_string))
        \<and> c_auth_user (collect ucd curl_string) = Some user \<and> user \<noteq> []
        \<and> c_auth_pass (collect ucd curl_string) = None"
  proof -
    from that obtain u parsed where "request = assemble (collect ucd curl_string) u parsed"
      by (blast dest: parse_curl_command_Inr)
    with that show ?thesis
      by (simp add: assemble_fields set_auth_def AuthConfig_default_def RequestModel_default_def)
  qed
qed

theorem parse_raises_with_url_counterexample:
  "c_url (collect no_tables ''curl http://['') = Some ''http://[''
   \<and> parse_curl_command accept_all no_tables ''curl http://['' = Inl Invalid_IPv6_URL"
  by code_simp

theorem parse_raises_iff_witness:
  "c_url (collect no_tables ''curl -X POST'') = None
   \<and> isl (parse_curl_command accept_all no_tables ''curl -X POST'')
   \<and> scan_tokens no_tables collected_init [''--compressed'', ''https://x.test'']
       = scan_tokens no_tables collected_init [''https://x.test'']
   \<and> HttpMethod_of (c_method (collect no_tables ''curl --compressed -X bogus -u alice https://x.test'')) = None
   \<and> map_sum id (\<lambda>r. (method r, auth r))
       (parse_curl_command accept_all no_tables ''curl --compressed -X bogus -u alice https://x.test'')
       = Inr (GET, \<lparr>auth_type = BASIC, username = ''alice'', password = [], bearer_token = []\<rparr>)"
proof -
  let ?e = "''curl -X POST''"
  let ?g = "''curl --compressed -X bogus -u alice https://x.test''"
  have c0: "c_url (collect no_tables ?e) = None"
    by code_simp
  obtain r where p: "parse_curl_command accept_all no_tables ?g = Inr r"
    by (cases "parse_curl_command accept_all no_tables ?g") (simp_all, code_simp)
  have c: "collect no_tables ?g = collected_init\<lparr>c_url := Some ''https://x.test'', c_method := ''BOGUS'',
      c_auth_user := Some ''alice''\<rparr>"
    by code_simp
  have m: "HttpMethod_of (c_method (collect no_tables ?g)) = None"
    unfolding c by code_simp
  have h: "\<not> truthy (c_bearer_token (collect no_tables ?g)) \<and> c_auth_user (collect no_tables ?g) = Some ''alice''
      \<and> ''alice'' \<noteq> [] \<and> c_auth_pass (collect no_tables ?g) = None"
    unfolding c by (simp add: collected_init_def)
  have f: "startswith ''--compressed'' ''-'' \<and> \<not> takes_arg ''--compressed''"
    by (simp add: startswith_def takes_arg_def)
  note t0 = parse_raises_iff [of accept_all no_tables ?e "''--compressed''" collected_init "[''https://x.test'']"
      undefined "[]" undefined]
  note t = parse_raises_iff [of accept_all no_tables ?g "''--compressed''" collected_init "[''https://x.test'']"
      r "''alice''" "''alice''"]
  from t0 c0 have w1: "isl (parse_curl_command accept_all no_tables ?e)"
    by simp
  from t f have w2: "scan_tokens no_tables collected_init [''--compressed'', ''https://x.test'']
       = scan_tokens no_tables collected_init [''https://x.test'']"
    by blast
  from t p have "method r = (case HttpMethod_of (c_method (collect no_tables ?g)) of Some m \<Rightarrow> m | None \<Rightarrow> GET)"
    by blast
  with m have w3: "method r = GET"
    by simp
  from t p h have w4: "auth r = \<lparr>auth_type = BASIC, username = ''alice'', password = [], bearer_token = []\<rparr>"
    by blast
  from p w3 w4 have w5: "map_sum id (\<lambda>r. (method r, auth r)) (parse_curl_command accept_all no_tables ?g)
       = Inr (GET, \<lparr>auth_type = BASIC, username = ''alice'', password = [], bearer_token = []\<rparr>)"
    by simp
  from c0 w1 w2 m w5 show ?thesis by (intro conjI)
qed

section \<open>Facts about the exporter\<close>

lemma urlencode_values_Inr:
  "list_all (\<lambda>elt. \<not> has_surrogate elt) vs \<Longrightarrow>
     urlencode_values k vs = Inr (map (\<lambda>elt. k @ ''='' @ quote_plus_bytes elt) vs)"
  by (induction vs) (simp_all add: quote_plus_def)

lemma urlencode_values_Inl:
  "\<not> list_all (\<lambda>elt. \<not> has_surrogate elt) vs \<Longrightarrow> urlencode_values k vs = Inl UnicodeEncodeError"
  by (induction vs) (auto simp: quote_plus_def split: sum.splits)

lemma urlencode_items_Inr:
  "encodable d \<Longrightarrow> urlencode_items d = Inr (urlencode_entries d)"
  by (induction d) (auto simp: encodable_def urlencode_entries_def quote_plus_def urlencode_values_Inr)

lemma urlencode_items_Inl:
  "\<not> encodable d \<Longrightarrow> urlencode_items d = Inl UnicodeEncodeError"
proof (induction d)
  case Nil
  then show ?case by (simp add: encodable_def)
next
  case (Cons kv d)
  obtain k vs where kv: "kv = (k, vs)"
    by (cases kv)
  show ?case
  proof (cases "has_surrogate k")
    case True
    then show ?thesis by (simp add: kv quote_plus_def)
  next
    case k: False
    show ?thesis
    proof (cases "list_all (\<lambda>elt. \<not> has_surrogate elt) vs")
      case True
      with k Cons.prems have "\<not> encodable d"
        by (simp add: kv encodable_def)
      then have "urlencode_items d = Inl UnicodeEncodeError"
        by (rule Cons.IH)
      with k True show ?thesis
        by (simp add: kv quote_plus_def urlencode_values_Inr)
    next
      case False
      with k show ?thesis
        by (simp add: kv quote_plus_def urlencode_values_Inl)
    qed
  qed
qed

lemma urlencode_Inr: "encodable d \<Longrightarrow> urlencode d = Inr (py_join ''&'' (urlencode_entries d))"
  by (simp add: urlencode_def urlencode_items_Inr)

lemma urlencode_Inl: "\<not> encodable d \<Longrightarrow> urlencode d = Inl UnicodeEncodeError"
  by (simp add: urlencode_def urlencode_items_Inl)

lemma isl_urlencode: "isl (urlencode d) = (\<not> encodable d)"
  by (cases "encodable d") (simp_all add: urlencode_Inr urlencode_Inl)

text \<open>
  C7, as the code has it. \<^verbatim>\<open>generate_curl_command\<close> returns a string for every request
  (any method, authentication and body) and every proxy and SSL argument, unless
  \<^verbatim>\<open>urlparse\<close> raises on the URL of the request, or \<^verbatim>\<open>urlencode\<close> raises on the query
  parameters (which it does when a key or a value of the URL or of an enabled parameter has a
  surrogate), or, when the proxy is to be included, \<^verbatim>\<open>urlparse\<close> raises on the URL that
  was rebuilt. In these cases, and only in these, the \<^verbatim>\<open>ValueError\<close> leaves the function.
\<close>

theorem generate_raises_iff:
  "isl (generate_curl_command netloc_ok request include_proxy proxy_http proxy_https ssl_verify)
     = (isl (urlparse netloc_ok (url request))
        \<or> (case urlparse netloc_ok (url request) of
              Inr parsed \<Rightarrow>
                \<not> encodable (merge_params (parse_qs (query parsed)) (query_params request))
            | Inl e \<Rightarrow> False)
        \<or> (include_proxy
            \<and> (case full_url netloc_ok request of
                  Inr u \<Rightarrow> isl (urlparse netloc_ok u)
                | Inl e \<Rightarrow> False)))
   \<and> isl (urlencode d) = (\<not> encodable d)
   \<and> encodable d
       = list_all (\<lambda>(k, vs). \<not> has_surrogate k \<and> list_all (\<lambda>elt. \<not> has_surrogate elt) vs) d"
proof (intro conjI)
  show "isl (generate_curl_command netloc_ok request include_proxy proxy_http proxy_https ssl_verify)
     = (isl (urlparse netloc_ok (url request))
        \<or> (case urlparse netloc_ok (url request) of
              Inr parsed \<Rightarrow>
                \<not> encodable (merge_params (parse_qs (query parsed)) (query_params request))
            | Inl e \<Rightarrow> False)
        \<or> (include_proxy
            \<and> (case full_url netloc_ok request of
                  Inr u \<Rightarrow> isl (urlparse netloc_ok u)
                | Inl e \<Rightarrow> False)))"
  proof (cases "urlparse netloc_ok (url request)")
    case (Inl e)
    then show ?thesis
      by (simp add: generate_curl_command_def full_url_def)
  next
    case (Inr parsed)
    show ?thesis
    proof (cases "encodable (merge_params (parse_qs (query parsed)) (query_params request))")
      case True
      with Inr show ?thesis
        by (auto simp: generate_curl_command_def full_url_def proxy_parts_def urlencode_Inr
            split: sum.splits)
    next
      case False
      with Inr show ?thesis
        by (simp add: generate_curl_command_def full_url_def urlencode_Inl)
    qed
  qed
  show "isl (urlencode d) = (\<not> encodable d)"
    by (rule isl_urlencode)
  show "encodable d
       = list_all (\<lambda>(k, vs). \<not> has_surrogate k \<and> list_all (\<lambda>elt. \<not> has_surrogate elt) vs) d"
    by (simp add: encodable_def)
qed

theorem generate_total_counterexample:
  "generate_curl_command accept_all (RequestModel_default\<lparr>url := ''http://[''\<rparr>) False [] [] True
     = Inl Invalid_IPv6_URL"
  by code_simp

theorem generate_raises_iff_witness:
  "\<not> isl (urlparse accept_all (url (RequestModel_default\<lparr>url := ''https://x.test/a?b=1''\<rparr>)))
   \<and> encodable (merge_params (parse_qs ''b=1'') [])
   \<and> \<not> isl (generate_curl_command accept_all (RequestModel_default\<lparr>url := ''https://x.test/a?b=1''\<rparr>)
         False [] [] True)
   \<and> isl (urlparse accept_all (url (RequestModel_default\<lparr>url := ''http://[''\<rparr>)))
   \<and> isl (generate_curl_command accept_all (RequestModel_default\<lparr>url := ''http://[''\<rparr>)
         False [] [] True)
   \<and> \<not> encodable (merge_params (parse_qs [])
         [\<lparr>enabled = True, key = ''k'', value = [CHR 0xED, CHR 0xA0, CHR 0x80]\<rparr>])
   \<and> isl (generate_curl_command accept_all
         (RequestModel_default\<lparr>url := ''https://x.test/a'',
            query_params := [\<lparr>enabled = True, key = ''k'', value = [CHR 0xED, CHR 0xA0, CHR 0x80]\<rparr>]\<rparr>)
         False [] [] True)"
proof -
  let ?a = "RequestModel_default\<lparr>url := ''https://x.test/a?b=1''\<rparr>"
  let ?b = "RequestModel_default\<lparr>url := ''http://[''\<rparr>"
  let ?p = "\<lparr>enabled = True, key = ''k'', value = [CHR 0xED, CHR 0xA0, CHR 0x80]\<rparr>"
  let ?c = "RequestModel_default\<lparr>url := ''https://x.test/a'', query_params := [?p]\<rparr>"
  have a1: "urlparse accept_all (url ?a) = Inr \<lparr>scheme = ''https'', netloc = ''x.test'',
      path = ''/a'', params = [], query = ''b=1'', fragment = []\<rparr>"
    by code_simp
  have a2: "encodable (merge_params (parse_qs ''b=1'') [])"
    by code_simp
  have a3: "query_params ?a = []" "\<not> False"
    by (simp_all add: RequestModel_default_def)
  have b1: "isl (urlparse accept_all (url ?b))"
    by code_simp
  have c1: "urlparse accept_all (url ?c) = Inr \<lparr>scheme = ''https'', netloc = ''x.test'',
      path = ''/a'', params = [], query = [], fragment = []\<rparr>"
    by code_simp
  have c2: "\<not> encodable (merge_params (parse_qs []) [?p])"
    by code_simp
  have c3: "query_params ?c = [?p]"
    by simp
  from generate_raises_iff [of accept_all ?a False "[]" "[]" True "[]"]
  have "isl (generate_curl_command accept_all ?a False [] [] True)
     = (isl (urlparse accept_all (url ?a))
        \<or> (case urlparse accept_all (url ?a) of
              Inr parsed \<Rightarrow> \<not> encodable (merge_params (parse_qs (query parsed)) (query_params ?a))
            | Inl e \<Rightarrow> False)
        \<or> (False \<and> (case full_url accept_all ?a of Inr u \<Rightarrow> isl (urlparse accept_all u)
                     | Inl e \<Rightarrow> False)))"
    by (rule conjunct1)
  with a2 have w1: "\<not> isl (generate_curl_command accept_all ?a False [] [] True)"
    unfolding a1 a3 by simp
  from generate_raises_iff [of accept_all ?b False "[]" "[]" True "[]"] b1
  have w2: "isl (generate_curl_command accept_all ?b False [] [] True)"
    by simp
  from generate_raises_iff [of accept_all ?c False "[]" "[]" True "[]"]
  have "isl (generate_curl_command accept_all ?c False [] [] True)
     = (isl (urlparse accept_all (url ?c))
        \<or> (case urlparse accept_all (url ?c) of
              Inr parsed \<Rightarrow> \<not> encodable (merge_params (parse_qs (query parsed)) (query_params ?c))
            | Inl e \<Rightarrow> False)
        \<or> (False \<and> (case full_url accept_all ?c of Inr u \<Rightarrow> isl (urlparse accept_all u)
                     | Inl e \<Rightarrow> False)))"
    by (rule conjunct1)
  with c2 have w3: "isl (generate_curl_command accept_all ?c False [] [] True)"
    unfolding c1 c3 by simp
  from a1 have w0: "\<not> isl (urlparse accept_all (url ?a))"
    by simp
  from w0 a2 w1 b1 w2 c2 w3 show ?thesis by (intro conjI)
qed

section \<open>Facts about the environments\<close>

lemma dict_set_keys:
  "map fst (dict_set k v d) = (if k \<in> set (map fst d) then map fst d else map fst d @ [k])"
proof (induction d)
  case Nil
  show ?case by simp
next
  case (Cons p d)
  obtain k' v' where p: "p = (k', v')" by (cases p)
  show ?case
  proof (cases "k' = k")
    case True
    with p show ?thesis by simp
  next
    case False
    with p Cons show ?thesis by simp
  qed
qed

lemma dict_set_has_key: "k \<in> fst ` set (dict_set k v d)"
proof -
  have "k \<in> set (map fst (dict_set k v d))"
    by (simp only: dict_set_keys) simp
  then show ?thesis by simp
qed

lemma from_dicts_names:
  "from_dicts members = Some envs \<Longrightarrow> map fst envs = map fst members"
  by (induction members arbitrary: envs) (auto split: option.splits)

text \<open>
  C8, as the code has it. \<^verbatim>\<open>load_environments\<close> answers with the one environment
  \<^verbatim>\<open>Default\<close> when there is no file (and then writes it to the file), when the file cannot be
  read, and when it does not hold an object of objects. When it does, the answer has the names
  of the file: \<^verbatim>\<open>Default\<close> is among them if and only if the file has it. The start-up of the
  application adds \<^verbatim>\<open>Default\<close> to what \<^verbatim>\<open>load_environments\<close> has returned when it is
  missing.
\<close>

theorem load_environments_default:
  "(''Default'' \<in> fst ` set (fst (load_environments writable file)))
     = (case file of
          Holds (JObj members) \<Rightarrow> from_dicts members = None \<or> ''Default'' \<in> fst ` set members
        | _ \<Rightarrow> True)
   \<and> load_environments writable Absent
       = (default_envs,
          if writable
          then Holds (JObj [(''Default'', JObj [(''name'', JStr ''Default''), (''variables'', JObj [])])])
          else Absent)
   \<and> ''Default'' \<in> fst ` set (fst (ensure_default writable (fst (load_environments writable file))
                                       (snd (load_environments writable file))))"
proof (intro conjI)
  show "(''Default'' \<in> fst ` set (fst (load_environments writable file)))
     = (case file of
          Holds (JObj members) \<Rightarrow> from_dicts members = None \<or> ''Default'' \<in> fst ` set members
        | _ \<Rightarrow> True)"
  proof (cases "file")
    case (Holds j)
    show ?thesis
    proof (cases j)
      case (JObj members)
      show ?thesis
      proof (cases "from_dicts members")
        case None
        with Holds JObj show ?thesis
          by (simp add: load_environments_def default_envs_def)
      next
        case (Some envs)
        from from_dicts_names [OF Some] have "fst ` set envs = fst ` set members"
          by (metis set_map)
        with Holds JObj Some show ?thesis
          by (simp add: load_environments_def)
      qed
    qed (simp_all add: Holds load_environments_def default_envs_def)
  qed (simp_all add: load_environments_def default_envs_def)
  show "load_environments writable Absent
       = (default_envs,
          if writable
          then Holds (JObj [(''Default'', JObj [(''name'', JStr ''Default''), (''variables'', JObj [])])])
          else Absent)"
    by (simp add: load_environments_def save_environments_def default_envs_def
        Environment_to_dict_def)
  show "''Default'' \<in> fst ` set (fst (ensure_default writable (fst (load_environments writable file))
                                       (snd (load_environments writable file))))"
    by (simp add: ensure_default_def Let_def dict_set_has_key)
qed

theorem load_environments_default_counterexample:
  "fst (load_environments True (Holds (JObj [(''Production'', JObj [(''name'', JStr ''Production''),
        (''variables'', JObj [(''host'', JStr ''x.test'')])])])))
     = [(''Production'', \<lparr>name = JStr ''Production'', variables = JObj [(''host'', JStr ''x.test'')]\<rparr>)]
   \<and> ''Default'' \<notin> fst ` set (fst (load_environments True (Holds (JObj [(''Production'',
        JObj [(''name'', JStr ''Production''), (''variables'', JObj [(''host'', JStr ''x.test'')])])]))))"
  by (simp add: load_environments_def json_get_def)

theorem load_environments_default_witness:
  "''Default'' \<in> fst ` set (fst (load_environments True Absent))
   \<and> snd (load_environments True Absent)
       = Holds (JObj [(''Default'', JObj [(''name'', JStr ''Default''), (''variables'', JObj [])])])
   \<and> ''Default'' \<in> fst ` set (fst (load_environments True (Holds (JArr []))))
   \<and> ''Default'' \<in> fst ` set (fst (ensure_default True
        (fst (load_environments True (Holds (JObj [(''Production'', JObj [])]))))
        (snd (load_environments True (Holds (JObj [(''Production'', JObj [])]))))))"
proof -
  note t1 = load_environments_default [of True Absent]
  note t2 = load_environments_default [of True "Holds (JArr [])"]
  note t3 = load_environments_default [of True "Holds (JObj [(''Production'', JObj [])])"]
  from t1 have "(''Default'' \<in> fst ` set (fst (load_environments True Absent)))
     = (case Absent of
          Holds (JObj members) \<Rightarrow> from_dicts members = None \<or> ''Default'' \<in> fst ` set members
        | _ \<Rightarrow> True)"
    by (rule conjunct1)
  then have w1: "''Default'' \<in> fst ` set (fst (load_environments True Absent))"
    by simp
  from t1 have "load_environments True Absent
       = (default_envs,
          if True
          then Holds (JObj [(''Default'', JObj [(''name'', JStr ''Default''), (''variables'', JObj [])])])
          else Absent)"
    by (rule conjunct2 [THEN conjunct1])
  then have w2: "snd (load_environments True Absent)
       = Holds (JObj [(''Default'', JObj [(''name'', JStr ''Default''), (''variables'', JObj [])])])"
    by simp
  from t2 have "(''Default'' \<in> fst ` set (fst (load_environments True (Holds (JArr [])))))
     = (case Holds (JArr []) of
          Holds (JObj members) \<Rightarrow> from_dicts members = None \<or> ''Default'' \<in> fst ` set members
        | _ \<Rightarrow> True)"
    by (rule conjunct1)
  then have w3: "''Default'' \<in> fst ` set (fst (load_environments True (Holds (JArr []))))"
    by simp
  from t3 have w4: "''Default'' \<in> fst ` set (fst (ensure_default True
        (fst (load_environments True (Holds (JObj [(''Production'', JObj [])]))))
        (snd (load_environments True (Holds (JObj [(''Production'', JObj [])]))))))"
    by (rule conjunct2 [THEN conjunct2])
  from w1 w2 w3 w4 show ?thesis by (intro conjI)
qed

section \<open>Facts about dictionaries and query strings\<close>

lemma dict_set_distinct:
  "distinct (map fst d) \<Longrightarrow> distinct (map fst (dict_set k v d))"
  by (simp add: dict_set_keys)

lemma map_of_dict_set:
  "map_of (dict_set k v d) k' = (if k' = k then Some v else map_of d k')"
  by (induction d) auto

lemma merge_params_append:
  "merge_params d (ps @ qs) = merge_params (merge_params d ps) qs"
  by (induction ps arbitrary: d) auto

lemma merge_params_distinct:
  "distinct (map fst d) \<Longrightarrow> distinct (map fst (merge_params d ps))"
  by (induction ps arbitrary: d) (auto simp: dict_set_distinct)

lemma merge_params_other:
  "\<forall>q \<in> set ps. enabled q \<and> key q \<noteq> [] \<longrightarrow> key q \<noteq> k \<Longrightarrow>
   map_of (merge_params d ps) k = map_of d k"
  by (induction ps arbitrary: d) (auto simp: map_of_dict_set)

lemma merge_params_last:
  assumes "enabled p" and "key p \<noteq> []"
    and "\<forall>q \<in> set ps2. enabled q \<and> key q \<noteq> [] \<longrightarrow> key q \<noteq> key p"
  shows "map_of (merge_params d (ps1 @ [p] @ ps2)) (key p) = Some [value p]"
  using assms by (simp add: merge_params_append merge_params_other map_of_dict_set)

lemma merge_params_keys:
  "set (map fst (merge_params d ps))
     = set (map fst d) \<union> set (map key (filter (\<lambda>q. enabled q \<and> key q \<noteq> []) ps))"
proof (induction ps arbitrary: d)
  case Nil
  show ?case by simp
next
  case (Cons p ps)
  show ?case
  proof (cases "enabled p \<and> key p \<noteq> []")
    case True
    have "set (map fst (dict_set (key p) [value p] d)) = insert (key p) (set (map fst d))"
      by (simp only: dict_set_keys) auto
    with True Cons.IH [of "dict_set (key p) [value p] d"] show ?thesis
      by auto
  next
    case False
    with Cons.IH [of d] show ?thesis by auto
  qed
qed

lemma parse_qs_pairs_distinct:
  "distinct (map fst d) \<Longrightarrow> distinct (map fst (parse_qs_pairs d pairs))"
  by (induction pairs arbitrary: d) (auto simp: dict_set_distinct split: option.splits)

lemma parse_qs_distinct: "distinct (map fst (parse_qs qs))"
  by (simp add: parse_qs_def parse_qs_pairs_distinct)

lemma substituted_params_append:
  "substituted_params (ps1 @ [p] @ ps2) env_vars
     = substituted_params ps1 env_vars @ [p\<lparr>value := substitute_variables (value p) env_vars\<rparr>]
       @ substituted_params ps2 env_vars"
  by (simp add: substituted_params_def)

lemma substituted_params_other:
  "\<forall>q \<in> set ps. enabled q \<and> key q \<noteq> [] \<longrightarrow> key q \<noteq> k \<Longrightarrow>
   \<forall>q \<in> set (substituted_params ps env_vars). enabled q \<and> key q \<noteq> [] \<longrightarrow> key q \<noteq> k"
  by (auto simp: substituted_params_def)

lemma substituted_params_keys:
  "map key (filter (\<lambda>q. enabled q \<and> key q \<noteq> []) (substituted_params ps env_vars))
     = map key (filter (\<lambda>q. enabled q \<and> key q \<noteq> []) ps)"
  by (induction ps) (simp_all add: substituted_params_def)

subsection \<open>Percent-encoding is one-to-one\<close>

lemma hexdigits_inj:
  "i < 16 \<Longrightarrow> j < 16 \<Longrightarrow> hexdigits ! i = hexdigits ! j \<Longrightarrow> i = j"
proof -
  have "distinct hexdigits" by (simp add: hexdigits_def)
  moreover have "length hexdigits = 16" by (simp add: hexdigits_def)
  ultimately show "i < 16 \<Longrightarrow> j < 16 \<Longrightarrow> hexdigits ! i = hexdigits ! j \<Longrightarrow> i = j"
    by (simp add: nth_eq_iff_index_eq)
qed

lemma of_char_less_256: "(of_char c :: nat) < 256"
proof -
  have "(of_char c :: nat) mod 256 = of_char c" by (rule of_char_mod_256)
  then show ?thesis by (metis mod_less_divisor zero_less_numeral)
qed



lemma of_char_div_16: "(of_char c :: nat) div 16 < 16"
  using of_char_less_256 [of c] by (simp add: div_less_iff_less_mult)

lemma hexdigits_nth_mem: "i < 16 \<Longrightarrow> hexdigits ! i \<in> set hexdigits"
proof -
  have "length hexdigits = 16" by (simp add: hexdigits_def)
  then show "i < 16 \<Longrightarrow> hexdigits ! i \<in> set hexdigits"
    using nth_mem [of i hexdigits] by simp
qed

lemma hexdigits_not_special:
  assumes "i < 16"
  shows "hexdigits ! i \<noteq> CHR ''='' \<and> hexdigits ! i \<noteq> CHR ''&''"
proof -
  have "CHR ''='' \<notin> set hexdigits \<and> CHR ''&'' \<notin> set hexdigits"
    by (simp add: hexdigits_def)
  with hexdigits_nth_mem [OF assms] show ?thesis by metis
qed

lemma always_safe_not_special:
  "always_safe c \<Longrightarrow> c \<noteq> CHR ''%'' \<and> c \<noteq> CHR ''+'' \<and> c \<noteq> CHR ''='' \<and> c \<noteq> CHR ''&''"
  by (auto simp: always_safe_def)

text \<open>The three forms of an encoded byte.\<close>

lemma quote_byte_space: "quote_byte (CHR '' '') = ''+''"
  by (simp add: quote_byte_def)

lemma quote_byte_safe: "always_safe c \<Longrightarrow> c \<noteq> CHR '' '' \<Longrightarrow> quote_byte c = [c]"
  by (simp add: quote_byte_def)

lemma quote_byte_hex:
  "\<not> always_safe c \<Longrightarrow> c \<noteq> CHR '' '' \<Longrightarrow>
   quote_byte c = [CHR ''%'', hexdigits ! ((of_char c :: nat) div 16), hexdigits ! ((of_char c :: nat) mod 16)]"
  by (simp add: quote_byte_def)

lemma quote_byte_not_Nil: "quote_byte c \<noteq> []"
  by (simp add: quote_byte_def)

lemma hex_pair_inj:
  assumes "hexdigits ! ((of_char x :: nat) div 16) = hexdigits ! ((of_char y :: nat) div 16)"
    and "hexdigits ! ((of_char x :: nat) mod 16) = hexdigits ! ((of_char y :: nat) mod 16)"
  shows "x = y"
proof -
  from assms(1) have "(of_char x :: nat) div 16 = of_char y div 16"
    by (rule hexdigits_inj [OF of_char_div_16 of_char_div_16])
  moreover from assms(2) have "(of_char x :: nat) mod 16 = of_char y mod 16"
    by (rule hexdigits_inj [rotated 2]) simp_all
  ultimately have "(of_char x :: nat) = of_char y"
    by (metis div_mult_mod_eq)
  then show ?thesis by simp
qed

lemma quote_byte_hd_plus:
  assumes "hd (quote_byte y) = CHR ''+''"
  shows "y = CHR '' ''"
proof (rule ccontr)
  assume n: "y \<noteq> CHR '' ''"
  show False
  proof (cases "always_safe y")
    case True
    with n assms have "y = CHR ''+''" by (simp add: quote_byte_safe)
    with always_safe_not_special [OF True] show False by simp
  next
    case False
    with n assms show False by (simp add: quote_byte_hex)
  qed
qed

lemma quote_byte_hd_percent:
  assumes "hd (quote_byte y) = CHR ''%''"
  shows "\<not> always_safe y \<and> y \<noteq> CHR '' ''"
proof (cases "y = CHR '' ''")
  case True
  with assms show ?thesis by (simp add: quote_byte_space)
next
  case n: False
  show ?thesis
  proof (cases "always_safe y")
    case True
    with n assms have "y = CHR ''%''" by (simp add: quote_byte_safe)
    with always_safe_not_special [OF True] show ?thesis by simp
  next
    case False
    with n show ?thesis by simp
  qed
qed

lemma quote_byte_hd_safe:
  assumes "always_safe x" and "hd (quote_byte y) = x"
  shows "y = x"
proof (cases "y = CHR '' ''")
  case True
  with assms(2) have "x = CHR ''+''" by (simp add: quote_byte_space)
  with always_safe_not_special [OF assms(1)] show ?thesis by simp
next
  case n: False
  show ?thesis
  proof (cases "always_safe y")
    case True
    with n assms(2) show ?thesis by (simp add: quote_byte_safe)
  next
    case False
    with n assms(2) have "x = CHR ''%''" by (simp add: quote_byte_hex)
    with always_safe_not_special [OF assms(1)] show ?thesis by simp
  qed
qed

lemma quote_byte_inj:
  assumes "quote_byte x @ r = quote_byte y @ s"
  shows "x = y \<and> r = s"
proof -
  from assms have "hd (quote_byte x @ r) = hd (quote_byte y @ s)" by simp
  then have h: "hd (quote_byte x) = hd (quote_byte y)"
    by (simp add: quote_byte_not_Nil)
  consider (space) "x = CHR '' ''" | (safe) "always_safe x" "x \<noteq> CHR '' ''"
    | (hex) "\<not> always_safe x" "x \<noteq> CHR '' ''"
    by blast
  then show ?thesis
  proof cases
    case space
    with h have "hd (quote_byte y) = CHR ''+''" by (simp add: quote_byte_space)
    then have "y = CHR '' ''" by (rule quote_byte_hd_plus)
    with space assms show ?thesis by (simp add: quote_byte_space)
  next
    case safe
    with h have "hd (quote_byte y) = x" by (simp add: quote_byte_safe)
    with safe(1) have "y = x" by (rule quote_byte_hd_safe)
    with safe assms show ?thesis by (simp add: quote_byte_safe)
  next
    case hex
    with h have "hd (quote_byte y) = CHR ''%''" by (simp add: quote_byte_hex)
    then have "\<not> always_safe y \<and> y \<noteq> CHR '' ''"
      by (rule quote_byte_hd_percent)
    then have y: "\<not> always_safe y" "y \<noteq> CHR '' ''"
      by blast+
    from assms have "hexdigits ! ((of_char x :: nat) div 16) = hexdigits ! ((of_char y :: nat) div 16)
        \<and> hexdigits ! ((of_char x :: nat) mod 16) = hexdigits ! ((of_char y :: nat) mod 16) \<and> r = s"
      by (simp add: quote_byte_hex hex y)
    then show ?thesis by (blast intro: hex_pair_inj)
  qed
qed

lemma quote_plus_bytes_Cons: "quote_plus_bytes (c # s) = quote_byte c @ quote_plus_bytes s"
  by (simp add: quote_plus_bytes_def)

lemma quote_plus_bytes_Nil: "quote_plus_bytes [] = []"
  by (simp add: quote_plus_bytes_def)

lemma quote_plus_bytes_inj: "quote_plus_bytes a = quote_plus_bytes b \<Longrightarrow> a = b"
proof (induction a arbitrary: b)
  case Nil
  then show ?case
    by (cases b) (simp_all add: quote_plus_bytes_Nil quote_plus_bytes_Cons quote_byte_not_Nil)
next
  case (Cons x xs)
  show ?case
  proof (cases b)
    case Nil
    with Cons.prems show ?thesis
      by (simp add: quote_plus_bytes_Nil quote_plus_bytes_Cons quote_byte_not_Nil)
  next
    case (Cons y ys)
    with Cons.prems have "quote_byte x @ quote_plus_bytes xs = quote_byte y @ quote_plus_bytes ys"
      by (simp add: quote_plus_bytes_Cons)
    then have "x = y \<and> quote_plus_bytes xs = quote_plus_bytes ys"
      by (rule quote_byte_inj)
    with Cons.IH Cons show ?thesis by simp
  qed
qed

lemma quote_byte_no_special:
  "CHR ''='' \<notin> set (quote_byte c) \<and> CHR ''&'' \<notin> set (quote_byte c)"
proof -
  consider (space) "c = CHR '' ''" | (safe) "always_safe c" "c \<noteq> CHR '' ''"
    | (hex) "\<not> always_safe c" "c \<noteq> CHR '' ''"
    by blast
  then show ?thesis
  proof cases
    case space
    then show ?thesis by (simp add: quote_byte_space)
  next
    case safe
    then show ?thesis
      using always_safe_not_special [of c] by (auto simp: quote_byte_safe)
  next
    case hex
    have "(of_char c :: nat) mod 16 < 16" by simp
    with hex show ?thesis
      using hexdigits_not_special [OF of_char_div_16 [of c]]
        hexdigits_not_special [of "(of_char c :: nat) mod 16"]
      by (simp add: quote_byte_hex) metis
  qed
qed

lemma quote_plus_bytes_no_special:
  "CHR ''='' \<notin> set (quote_plus_bytes s) \<and> CHR ''&'' \<notin> set (quote_plus_bytes s)"
  by (induction s) (simp_all add: quote_plus_bytes_Nil quote_plus_bytes_Cons quote_byte_no_special)

subsection \<open>The entries of a query string\<close>

lemma py_split_no_sep: "sep \<notin> set p \<Longrightarrow> py_split sep p = [p]"
  by (induction p) auto

lemma py_split_append:
  "sep \<notin> set p \<Longrightarrow> py_split sep (p @ sep # rest) = p # py_split sep rest"
  by (induction p) auto

lemma py_split_join:
  assumes "parts \<noteq> []" and "\<forall>p \<in> set parts. sep \<notin> set p"
  shows "py_split sep (py_join [sep] parts) = parts"
  using assms
proof (induction parts)
  case Nil
  then show ?case by simp
next
  case (Cons p ps)
  show ?case
  proof (cases ps)
    case Nil
    with Cons.prems show ?thesis by (simp add: py_split_no_sep)
  next
    case (Cons q qs)
    with Cons.IH Cons.prems have "py_split sep (py_join [sep] ps) = ps"
      by simp
    with Cons Cons.prems show ?thesis
      by (simp add: py_split_append)
  qed
qed

lemma entry_key:
  "fst (split_first (CHR ''='') (quote_plus_bytes k @ CHR ''='' # x)) = quote_plus_bytes k"
proof -
  have "\<And>c. c \<in> set (quote_plus_bytes k) \<Longrightarrow> c \<noteq> CHR ''=''"
    using quote_plus_bytes_no_special [of k] by blast
  then have "takeWhile (\<lambda>c. c \<noteq> CHR ''='') (quote_plus_bytes k @ CHR ''='' # x) = quote_plus_bytes k"
    by (simp add: takeWhile_append2)
  then show ?thesis by (simp add: split_first_def)
qed

lemma urlencode_entries_Cons:
  "urlencode_entries ((k, vs) # d)
     = map (\<lambda>elt. quote_plus_bytes k @ CHR ''='' # quote_plus_bytes elt) vs @ urlencode_entries d"
  by (simp add: urlencode_entries_def)

lemma entries_of_key:
  "filter (\<lambda>e. fst (split_first (CHR ''='') e) = quote_plus_bytes k)
     (map (\<lambda>elt. quote_plus_bytes k' @ CHR ''='' # quote_plus_bytes elt) vs)
   = (if k' = k then map (\<lambda>elt. quote_plus_bytes k' @ CHR ''='' # quote_plus_bytes elt) vs else [])"
proof -
  have "(quote_plus_bytes k' = quote_plus_bytes k) = (k' = k)"
    by (blast dest: quote_plus_bytes_inj)
  then show ?thesis
    by (induction vs) (simp_all add: entry_key)
qed

lemma entries_absent:
  "k \<notin> set (map fst d) \<Longrightarrow>
   filter (\<lambda>e. fst (split_first (CHR ''='') e) = quote_plus_bytes k) (urlencode_entries d) = []"
proof (induction d)
  case Nil
  show ?case by (simp add: urlencode_entries_def)
next
  case (Cons p d)
  obtain k' vs where p: "p = (k', vs)" by (cases p)
  with Cons show ?case
    by (auto simp: urlencode_entries_Cons entries_of_key)
qed

lemma entries_present:
  assumes "distinct (map fst d)" and "map_of d k = Some vs"
  shows "filter (\<lambda>e. fst (split_first (CHR ''='') e) = quote_plus_bytes k) (urlencode_entries d)
         = map (\<lambda>elt. quote_plus_bytes k @ CHR ''='' # quote_plus_bytes elt) vs"
  using assms
proof (induction d)
  case Nil
  then show ?case by simp
next
  case (Cons p d)
  obtain k' vs' where p: "p = (k', vs')" by (cases p)
  show ?case
  proof (cases "k' = k")
    case True
    with Cons.prems p have "vs' = vs" and "k \<notin> set (map fst d)"
      by auto
    with True p show ?thesis
      by (simp add: urlencode_entries_Cons entries_of_key entries_absent)
  next
    case False
    with Cons p show ?thesis
      by (simp add: urlencode_entries_Cons entries_of_key)
  qed
qed

lemma entries_no_amp: "\<forall>e \<in> set (urlencode_entries d). CHR ''&'' \<notin> set e"
proof (induction d)
  case Nil
  show ?case by (simp add: urlencode_entries_def)
next
  case (Cons p d)
  obtain k vs where p: "p = (k, vs)" by (cases p)
  have "CHR ''&'' \<notin> set (quote_plus_bytes k @ CHR ''='' # quote_plus_bytes elt)" for elt
    using quote_plus_bytes_no_special [of k] quote_plus_bytes_no_special [of elt] by simp
  with Cons p show ?case
    by (auto simp: urlencode_entries_Cons)
qed

text \<open>The query string has one entry for a key that has one value in the dictionary.\<close>

lemma query_entry:
  assumes "distinct (map fst d)" and "map_of d k = Some [v]"
  shows "filter (\<lambda>e. fst (split_first (CHR ''='') e) = quote_plus_bytes k) (py_split (CHR ''&'') (py_join ''&'' (urlencode_entries d)))
         = [quote_plus_bytes k @ CHR ''='' # quote_plus_bytes v]"
proof -
  from assms have e: "filter (\<lambda>e. fst (split_first (CHR ''='') e) = quote_plus_bytes k) (urlencode_entries d)
         = [quote_plus_bytes k @ CHR ''='' # quote_plus_bytes v]"
    by (simp add: entries_present)
  then have "urlencode_entries d \<noteq> []"
    by auto
  then have "py_split (CHR ''&'') (py_join ''&'' (urlencode_entries d)) = urlencode_entries d"
    using entries_no_amp [of d] by (rule py_split_join)
  with e show ?thesis by simp
qed

lemma build_params_last:
  assumes "enabled p" and "key p \<noteq> []"
    and "\<forall>q \<in> set ps2. enabled q \<and> key q \<noteq> [] \<longrightarrow> key q \<noteq> key p"
  shows "map_of (build_params d (ps1 @ [p] @ ps2) env_vars) (key p)
         = Some [substitute_variables (value p) env_vars]"
proof -
  let ?p = "p\<lparr>value := substitute_variables (value p) env_vars\<rparr>"
  have "map_of (merge_params d (substituted_params ps1 env_vars @ [?p] @ substituted_params ps2 env_vars))
      (key ?p) = Some [value ?p]"
    using assms substituted_params_other [of ps2 "key p" env_vars]
    by (intro merge_params_last) simp_all
  then show ?thesis
    by (simp add: build_params_def substituted_params_def)
qed

lemma build_params_distinct:
  "distinct (map fst d) \<Longrightarrow> distinct (map fst (build_params d ps env_vars))"
  by (simp add: build_params_def merge_params_distinct)

lemma build_params_keys:
  "set (map fst (build_params d ps env_vars))
     = set (map fst d) \<union> set (map key (filter (\<lambda>q. enabled q \<and> key q \<noteq> []) ps))"
  by (simp only: build_params_def merge_params_keys substituted_params_keys)

lemma build_url_Inr:
  assumes "urlparse netloc_ok (strip_quotes (substitute_variables (url request) env_vars)) = Inr parsed"
    and "encodable (build_params (parse_qs (query parsed)) (query_params request) env_vars)"
  shows "build_url netloc_ok request env_vars
    = Inr (urlunparse (parsed\<lparr>query := py_join ''&'' (urlencode_entries
         (build_params (parse_qs (query parsed)) (query_params request) env_vars))\<rparr>))"
  using assms by (simp add: build_url_def urlencode_Inr)

lemma isl_build_url:
  "isl (build_url netloc_ok request env_vars)
     = (case urlparse netloc_ok (strip_quotes (substitute_variables (url request) env_vars)) of
          Inl e \<Rightarrow> True
        | Inr parsed \<Rightarrow>
            \<not> encodable (build_params (parse_qs (query parsed)) (query_params request) env_vars))"
  by (auto simp: build_url_def isl_urlencode [symmetric] split: sum.splits)

subsection \<open>Stripping\<close>

lemma strip_front_id:
  assumes "\<forall>w \<in> set chars. w \<noteq> [] \<longrightarrow> \<not> prefix w s"
  shows "strip_front chars s = s"
proof -
  from assms have "find (\<lambda>w. w \<noteq> [] \<and> prefix w s) chars = None"
    by (auto simp: find_None_iff)
  then show ?thesis
    by (subst strip_front.simps) simp
qed

lemma prefix_hd: "w \<noteq> [] \<Longrightarrow> prefix w s \<Longrightarrow> hd w = hd s"
  by (cases w; cases s) auto

lemma py_strip_id:
  assumes "s \<noteq> []" and "\<forall>w \<in> set whitespace. hd w \<noteq> hd s"
    and "\<forall>w \<in> set whitespace. last w \<noteq> last s"
  shows "py_strip s = s"
proof -
  have "strip_front whitespace s = s"
    using assms(2) by (intro strip_front_id) (auto dest: prefix_hd)
  moreover have "strip_front (map rev whitespace) (rev s) = rev s"
  proof (intro strip_front_id ballI impI)
    fix w'
    assume "w' \<in> set (map rev whitespace)" and "w' \<noteq> []"
    then obtain w where w: "w \<in> set whitespace" "w' = rev w" "w \<noteq> []"
      by auto
    show "\<not> prefix w' (rev s)"
    proof
      assume "prefix w' (rev s)"
      with \<open>w' \<noteq> []\<close> have "hd w' = hd (rev s)"
        by (rule prefix_hd)
      with w assms(1) have "last w = last s"
        by (simp add: hd_rev)
      with w(1) assms(3) show False by blast
    qed
  qed
  ultimately show ?thesis
    by (simp add: py_strip_def)
qed

lemma whitespace_ends:
  assumes "w \<in> set whitespace"
  shows "hd w \<noteq> CHR 0x22" "hd w \<noteq> CHR 0x27" "last w \<noteq> CHR 0x22" "last w \<noteq> CHR 0x27"
  using assms unfolding whitespace_def by auto

lemma strip_quotes_quoted:
  assumes "q = CHR 0x22 \<or> q = CHR 0x27"
  shows "strip_quotes (q # s @ [q]) = s"
proof -
  from assms have "py_strip (q # s @ [q]) = q # s @ [q]"
    by (intro py_strip_id) (auto dest: whitespace_ends)
  with assms show ?thesis
    by (auto simp: strip_quotes_def startswith_def endswith_def Let_def suffix_def)
qed

text \<open>
  C9, as the code has it. \<^verbatim>\<open>build_url\<close> raises when \<^verbatim>\<open>urlparse\<close> rejects the URL, and
  when a key or a value of the parameters has a surrogate, which \<^verbatim>\<open>urlencode\<close> cannot
  encode. When it returns, an enabled query parameter (with a key) is in the dictionary
  under its key as it stands, with its value substituted, and the query string has one entry for
  the key: the key quoted, \<^verbatim>\<open>=\<close>, and the substituted value quoted (the value of the last
  enabled parameter with this key). The keys of the query string are those of the URL and the
  keys of the enabled parameters; no key is one that substitution has made.
\<close>

theorem build_url_key_not_substituted:
  assumes "urlparse netloc_ok (strip_quotes (substitute_variables (url request) env_vars)) = Inr parsed"
    and "d = build_params (parse_qs (query parsed)) (query_params request) env_vars"
    and "encodable d"
    and "query_params request = ps1 @ [param] @ ps2"
    and "enabled param" and "key param \<noteq> []"
    and "\<forall>q \<in> set ps2. enabled q \<and> key q \<noteq> [] \<longrightarrow> key q \<noteq> key param"
  shows "build_url netloc_ok request env_vars
      = Inr (urlunparse (parsed\<lparr>query := py_join ''&'' (urlencode_entries d)\<rparr>))
    \<and> map_of d (key param) = Some [substitute_variables (value param) env_vars]
    \<and> filter (\<lambda>e. fst (split_first (CHR ''='') e) = quote_plus_bytes (key param))
         (py_split (CHR ''&'') (py_join ''&'' (urlencode_entries d)))
       = [quote_plus_bytes (key param) @ ''=''
            @ quote_plus_bytes (substitute_variables (value param) env_vars)]
    \<and> set (map fst d)
       = set (map fst (parse_qs (query parsed)))
         \<union> set (map key (filter (\<lambda>q. enabled q \<and> key q \<noteq> []) (query_params request)))"
proof (intro conjI)
  show "build_url netloc_ok request env_vars
      = Inr (urlunparse (parsed\<lparr>query := py_join ''&'' (urlencode_entries d)\<rparr>))"
    using assms(1,3) unfolding assms(2) by (rule build_url_Inr)
  have dist: "distinct (map fst d)"
    unfolding assms(2) by (intro build_params_distinct parse_qs_distinct)
  show m: "map_of d (key param) = Some [substitute_variables (value param) env_vars]"
    unfolding assms(2,4) using assms(5,6,7) by (rule build_params_last)
  from dist m show "filter (\<lambda>e. fst (split_first (CHR ''='') e) = quote_plus_bytes (key param))
         (py_split (CHR ''&'') (py_join ''&'' (urlencode_entries d)))
       = [quote_plus_bytes (key param) @ ''=''
            @ quote_plus_bytes (substitute_variables (value param) env_vars)]"
    by (simp add: query_entry)
  show "set (map fst d)
       = set (map fst (parse_qs (query parsed)))
         \<union> set (map key (filter (\<lambda>q. enabled q \<and> key q \<noteq> []) (query_params request)))"
    unfolding assms(2) by (rule build_params_keys)
qed

theorem build_url_raises_counterexample:
  "build_url accept_all
     (RequestModel_default\<lparr>url := ''http://['',
        query_params := [\<lparr>enabled = True, key = ''{{name}}'', value = ''{{name}}''\<rparr>]\<rparr>)
     [(''name'', ''v'')]
   = Inl Invalid_IPv6_URL"
  by code_simp

theorem build_url_key_not_substituted_witness:
  "build_url accept_all
     (RequestModel_default\<lparr>url := ''https://x.test/a'',
        query_params := [\<lparr>enabled = True, key = ''{{name}}'', value = ''{{name}}''\<rparr>]\<rparr>)
     [(''name'', ''v'')]
   = Inr ''https://x.test/a?%7B%7Bname%7D%7D=v''
   \<and> build_params (parse_qs []) [\<lparr>enabled = True, key = ''{{name}}'', value = ''{{name}}''\<rparr>]
        [(''name'', ''v'')] = [(''{{name}}'', [''v''])]
   \<and> quote_plus_bytes ''{{name}}'' = ''%7B%7Bname%7D%7D''
   \<and> filter (\<lambda>e. fst (split_first (CHR ''='') e) = ''%7B%7Bname%7D%7D'')
        (py_split (CHR ''&'') ''%7B%7Bname%7D%7D=v'') = [''%7B%7Bname%7D%7D=v'']"
proof -
  let ?p = "\<lparr>enabled = True, key = ''{{name}}'', value = ''{{name}}''\<rparr>"
  let ?r = "RequestModel_default\<lparr>url := ''https://x.test/a'', query_params := [?p]\<rparr>"
  let ?env = "[(''name'', ''v'')]"
  let ?parsed = "\<lparr>scheme = ''https'', netloc = ''x.test'', path = ''/a'', params = [], query = [],
      fragment = []\<rparr>"
  let ?d = "[(''{{name}}'', [''v''])]"
  have h1: "urlparse accept_all (strip_quotes (substitute_variables (url ?r) ?env)) = Inr ?parsed"
    by code_simp
  have h2: "?d = build_params (parse_qs (query ?parsed)) (query_params ?r) ?env"
    by code_simp
  have h3: "encodable ?d"
    by code_simp
  have h4: "query_params ?r = [] @ [?p] @ []"
    by simp
  have h5: "enabled ?p" and h6: "key ?p \<noteq> []"
    by simp_all
  have h7: "\<forall>q \<in> set []. enabled q \<and> key q \<noteq> [] \<longrightarrow> key q \<noteq> key ?p"
    by simp
  have e1: "urlunparse (?parsed\<lparr>query := py_join ''&'' (urlencode_entries ?d)\<rparr>)
      = ''https://x.test/a?%7B%7Bname%7D%7D=v''"
    by code_simp
  have e2: "py_join ''&'' (urlencode_entries ?d) = ''%7B%7Bname%7D%7D=v''"
    by code_simp
  have e3: "quote_plus_bytes ''{{name}}'' = ''%7B%7Bname%7D%7D''"
    by code_simp
  have e4: "substitute_variables (value ?p) ?env = ''v''"
    by code_simp
  have e5: "quote_plus_bytes ''v'' = ''v''"
    by code_simp
  note t = build_url_key_not_substituted [OF h1 h2 h3 h4 h5 h6 h7]
  from t have "build_url accept_all ?r ?env
      = Inr (urlunparse (?parsed\<lparr>query := py_join ''&'' (urlencode_entries ?d)\<rparr>))"
    by (rule conjunct1)
  then have w1: "build_url accept_all ?r ?env = Inr ''https://x.test/a?%7B%7Bname%7D%7D=v''"
    by (simp only: e1)
  from h2 have w2: "build_params (parse_qs []) [?p] ?env = ?d"
    by simp
  from t have "filter (\<lambda>e. fst (split_first (CHR ''='') e) = quote_plus_bytes (key ?p))
         (py_split (CHR ''&'') (py_join ''&'' (urlencode_entries ?d)))
       = [quote_plus_bytes (key ?p) @ ''='' @ quote_plus_bytes (substitute_variables (value ?p) ?env)]"
    by (rule conjunct2 [THEN conjunct2, THEN conjunct1])
  then have w3: "filter (\<lambda>e. fst (split_first (CHR ''='') e) = ''%7B%7Bname%7D%7D'')
        (py_split (CHR ''&'') ''%7B%7Bname%7D%7D=v'') = [''%7B%7Bname%7D%7D=v'']"
    unfolding e2 e4 e5 by (simp add: e3)
  from w1 w2 e3 w3 show ?thesis by (intro conjI)
qed

text \<open>
  C6, as the code has it. \<^verbatim>\<open>build_url\<close> substitutes the variables in the URL, strips it and
  takes one pair of quotes around it away, and parses it. It raises when \<^verbatim>\<open>urlparse\<close>
  rejects the URL and when a key or a value of the parameters has a surrogate, and in no other
  case. It puts every enabled query parameter that has a key into the dictionary of the
  parameters of the URL, in the place of what the URL had for this key: the dictionary has no key
  twice, and the query string that is rebuilt has one entry for the key, with the value of the
  parameter. A parameter with an empty key is left out.
\<close>

theorem build_url_merges:
  assumes "urlparse netloc_ok (strip_quotes (substitute_variables (url request) env_vars)) = Inr parsed"
    and "d = build_params (parse_qs (query parsed)) (query_params request) env_vars"
    and "encodable d"
  shows "build_url netloc_ok request env_vars
      = Inr (urlunparse (parsed\<lparr>query := py_join ''&'' (urlencode_entries d)\<rparr>))
    \<and> isl (build_url netloc_ok request' env_vars')
       = (case urlparse netloc_ok (strip_quotes (substitute_variables (url request') env_vars')) of
            Inl e \<Rightarrow> True
          | Inr parsed' \<Rightarrow>
              \<not> encodable (build_params (parse_qs (query parsed')) (query_params request') env_vars'))
    \<and> (q = CHR 0x22 \<or> q = CHR 0x27 \<longrightarrow> strip_quotes (q # s @ [q]) = s)
    \<and> distinct (map fst d)
    \<and> (query_params request = ps1 @ [param] @ ps2 \<and> enabled param \<and> key param \<noteq> []
        \<and> (\<forall>p \<in> set ps2. enabled p \<and> key p \<noteq> [] \<longrightarrow> key p \<noteq> key param) \<longrightarrow>
        filter (\<lambda>e. fst (split_first (CHR ''='') e) = quote_plus_bytes (key param))
          (py_split (CHR ''&'') (py_join ''&'' (urlencode_entries d)))
        = [quote_plus_bytes (key param) @ ''=''
             @ quote_plus_bytes (substitute_variables (value param) env_vars)])
    \<and> set (map fst d)
       = set (map fst (parse_qs (query parsed)))
         \<union> set (map key (filter (\<lambda>p. enabled p \<and> key p \<noteq> []) (query_params request)))"
proof (intro conjI impI)
  show "build_url netloc_ok request env_vars
      = Inr (urlunparse (parsed\<lparr>query := py_join ''&'' (urlencode_entries d)\<rparr>))"
    using assms(1,3) unfolding assms(2) by (rule build_url_Inr)
  show "isl (build_url netloc_ok request' env_vars')
       = (case urlparse netloc_ok (strip_quotes (substitute_variables (url request') env_vars')) of
            Inl e \<Rightarrow> True
          | Inr parsed' \<Rightarrow>
              \<not> encodable (build_params (parse_qs (query parsed')) (query_params request') env_vars'))"
    by (rule isl_build_url)
  show "strip_quotes (q # s @ [q]) = s" if "q = CHR 0x22 \<or> q = CHR 0x27"
    using that by (rule strip_quotes_quoted)
  show dist: "distinct (map fst d)"
    unfolding assms(2) by (intro build_params_distinct parse_qs_distinct)
  show "filter (\<lambda>e. fst (split_first (CHR ''='') e) = quote_plus_bytes (key param))
          (py_split (CHR ''&'') (py_join ''&'' (urlencode_entries d)))
        = [quote_plus_bytes (key param) @ ''=''
             @ quote_plus_bytes (substitute_variables (value param) env_vars)]"
    if h: "query_params request = ps1 @ [param] @ ps2 \<and> enabled param \<and> key param \<noteq> []
        \<and> (\<forall>p \<in> set ps2. enabled p \<and> key p \<noteq> [] \<longrightarrow> key p \<noteq> key param)"
  proof -
    from h have "map_of (build_params (parse_qs (query parsed)) (ps1 @ [param] @ ps2) env_vars) (key param)
        = Some [substitute_variables (value param) env_vars]"
      by (intro build_params_last) blast+
    with h assms(2) have "map_of d (key param) = Some [substitute_variables (value param) env_vars]"
      by simp
    with dist show ?thesis
      by (simp add: query_entry)
  qed
  show "set (map fst d)
       = set (map fst (parse_qs (query parsed)))
         \<union> set (map key (filter (\<lambda>p. enabled p \<and> key p \<noteq> []) (query_params request)))"
    unfolding assms(2) by (rule build_params_keys)
qed

theorem build_url_merges_counterexample:
  "build_url accept_all
     (RequestModel_default\<lparr>url := ''https://x.test/?q=old'',
        query_params := [\<lparr>enabled = True, key = [], value = ''v''\<rparr>]\<rparr>) []
   = Inr ''https://x.test/?q=old''"
  by code_simp

theorem build_url_merges_witness:
  "build_url accept_all
     (RequestModel_default\<lparr>url := '' \"https://x.test/?q=old&r=1\" '',
        query_params := [\<lparr>enabled = True, key = ''q'', value = ''hello world''\<rparr>]\<rparr>) []
   = Inr ''https://x.test/?q=hello+world&r=1''
   \<and> encodable [(''q'', [''hello world'']), (''r'', [''1''])]
   \<and> isl (build_url accept_all
        (RequestModel_default\<lparr>url := ''https://x.test/'',
           query_params := [\<lparr>enabled = True, key = ''q'', value = [CHR 0xED, CHR 0xA0, CHR 0x80]\<rparr>]\<rparr>) [])
   \<and> strip_quotes ([CHR 0x22] @ ''https://x.test/'' @ [CHR 0x22]) = ''https://x.test/''
   \<and> filter (\<lambda>e. fst (split_first (CHR ''='') e) = ''q'')
        (py_split (CHR ''&'') ''q=hello+world&r=1'') = [''q=hello+world'']"
proof -
  let ?p = "\<lparr>enabled = True, key = ''q'', value = ''hello world''\<rparr>"
  let ?r = "RequestModel_default\<lparr>url := '' \"https://x.test/?q=old&r=1\" '', query_params := [?p]\<rparr>"
  let ?r' = "RequestModel_default\<lparr>url := ''https://x.test/'',
           query_params := [\<lparr>enabled = True, key = ''q'', value = [CHR 0xED, CHR 0xA0, CHR 0x80]\<rparr>]\<rparr>"
  let ?parsed = "\<lparr>scheme = ''https'', netloc = ''x.test'', path = ''/'', params = [],
      query = ''q=old&r=1'', fragment = []\<rparr>"
  let ?d = "[(''q'', [''hello world'']), (''r'', [''1''])]"
  have h1: "urlparse accept_all (strip_quotes (substitute_variables (url ?r) [])) = Inr ?parsed"
    by code_simp
  have h2: "?d = build_params (parse_qs (query ?parsed)) (query_params ?r) []"
    by code_simp
  have h3: "encodable ?d"
    by code_simp
  have h4: "query_params ?r = [] @ [?p] @ [] \<and> enabled ?p \<and> key ?p \<noteq> []
      \<and> (\<forall>p \<in> set []. enabled p \<and> key p \<noteq> [] \<longrightarrow> key p \<noteq> key ?p)"
    by simp
  have h5: "(case urlparse accept_all (strip_quotes (substitute_variables (url ?r') [])) of
            Inl e \<Rightarrow> True
          | Inr parsed' \<Rightarrow>
              \<not> encodable (build_params (parse_qs (query parsed')) (query_params ?r') []))"
    by code_simp
  have e1: "urlunparse (?parsed\<lparr>query := py_join ''&'' (urlencode_entries ?d)\<rparr>)
      = ''https://x.test/?q=hello+world&r=1''"
    by code_simp
  have e2: "py_join ''&'' (urlencode_entries ?d) = ''q=hello+world&r=1''"
    by code_simp
  have e3: "quote_plus_bytes (key ?p) = ''q''"
    by code_simp
  have e4: "quote_plus_bytes (substitute_variables (value ?p) []) = ''hello+world''"
    by code_simp
  note t = build_url_merges [OF h1 h2 h3, of ?r' "[]" "CHR 0x22" "''https://x.test/''" "[]" ?p "[]"]
  from t have "build_url accept_all ?r []
      = Inr (urlunparse (?parsed\<lparr>query := py_join ''&'' (urlencode_entries ?d)\<rparr>))"
    by (rule conjunct1)
  then have w1: "build_url accept_all ?r [] = Inr ''https://x.test/?q=hello+world&r=1''"
    by (simp only: e1)
  from t h5 have w2: "isl (build_url accept_all ?r' [])"
    by blast
  from t have w3: "strip_quotes ([CHR 0x22] @ ''https://x.test/'' @ [CHR 0x22]) = ''https://x.test/''"
    by simp
  from t h4 have "filter (\<lambda>e. fst (split_first (CHR ''='') e) = quote_plus_bytes (key ?p))
          (py_split (CHR ''&'') (py_join ''&'' (urlencode_entries ?d)))
        = [quote_plus_bytes (key ?p) @ ''='' @ quote_plus_bytes (substitute_variables (value ?p) [])]"
    by blast
  then have w4: "filter (\<lambda>e. fst (split_first (CHR ''='') e) = ''q'')
        (py_split (CHR ''&'') ''q=hello+world&r=1'') = [''q=hello+world'']"
    unfolding e2 e3 e4 by simp
  from w1 h3 w2 w3 w4 show ?thesis by (intro conjI)
qed

end
